theory Spec2Isabelle
  imports Main
begin

section \<open>Python values used by the viewer\<close>

text \<open>
  The viewer of \<^verbatim>\<open>display.py\<close> and \<^verbatim>\<open>lines_display.py\<close> is modelled with Python's
  unbounded integers as \<^typ>\<open>int\<close>, \<^verbatim>\<open>None\<close> as \<^const>\<open>None\<close>, and every exception
  the code can raise as a value of \<open>error\<close>.
\<close>

datatype error = IndexError | TypeError | AttributeError

text \<open>\<^verbatim>\<open>Color = Tuple[int, int]\<close>: (string index from which the colour applies, colour pair);
  \<^verbatim>\<open>Span = Tuple[int, int]\<close>: (starting index, ending index).\<close>

type_synonym Color = "int \<times> int"
type_synonym Span = "int \<times> int"

text \<open>\<^verbatim>\<open>xs[-1]\<close>: the last element, \<^verbatim>\<open>IndexError\<close> on an empty list.\<close>

definition py_last :: "'a list \<Rightarrow> error + 'a" where
  "py_last xs = (if xs = [] then Inl IndexError else Inr (last xs))"

section \<open>Span and colour engine: \<^verbatim>\<open>Line.add_color_span\<close>\<close>

text \<open>
  \<^verbatim>\<open>
  def add_color_span(self, colors, color_i, start, w):
      try:
          prev_color = [c[1] for c in colors if c[0] <= start+w][-1]
      except IndexError:
          prev_color = 1
          colors = [(0, prev_color)] + colors
      colors = [x for x in colors if x[0] != start]
      colors += [(start, color_i), (start+w, prev_color)]
      return sorted(colors, key=lambda tup: tup[0])
  \<close>
  The method never reads \<^verbatim>\<open>self\<close>, so the model takes the breakpoint list and the three
  integers only. \<^verbatim>\<open>sorted\<close> is stable, as \<^const>\<open>sort_key\<close> is.
\<close>

definition span_tail :: "Color list \<Rightarrow> int \<Rightarrow> int \<Rightarrow> int \<Rightarrow> int \<Rightarrow> Color list" where
  \<comment> \<open>the three statements after the \<^verbatim>\<open>try\<close> block\<close>
  "span_tail colors prev_color color_i start w =
     sort_key fst ([x \<leftarrow> colors. fst x \<noteq> start] @ [(start, color_i), (start + w, prev_color)])"

definition add_color_span_exc :: "Color list \<Rightarrow> int \<Rightarrow> int \<Rightarrow> int \<Rightarrow> error + Color list" where
  \<comment> \<open>with the exceptions written out: only \<^verbatim>\<open>IndexError\<close> is caught\<close>
  "add_color_span_exc colors color_i start w =
     (case py_last (map snd [c \<leftarrow> colors. fst c \<le> start + w]) of
        Inr prev_color \<Rightarrow> Inr (span_tail colors prev_color color_i start w)
      | Inl IndexError \<Rightarrow> Inr (span_tail ((0, 1) # colors) 1 color_i start w)
      | Inl e \<Rightarrow> Inl e)"

definition add_color_span :: "Color list \<Rightarrow> int \<Rightarrow> int \<Rightarrow> int \<Rightarrow> Color list" where
  \<comment> \<open>the list the method returns\<close>
  "add_color_span colors color_i start w =
     (case map snd [c \<leftarrow> colors. fst c \<le> start + w] of
        [] \<Rightarrow> span_tail ((0, 1) # colors) 1 color_i start w
      | p # ps \<Rightarrow> span_tail colors (last (p # ps)) color_i start w)"

text \<open>The colour in effect at column \<open>x\<close>, by the expression \<^verbatim>\<open>add_color_span\<close> itself uses
  to find the colour to resume with: the last breakpoint, in list order, at or before \<open>x\<close>,
  and colour 1 when there is none.\<close>

definition color_at :: "Color list \<Rightarrow> int \<Rightarrow> int" where
  "color_at colors x =
     (case map snd [c \<leftarrow> colors. fst c \<le> x] of [] \<Rightarrow> 1 | p # ps \<Rightarrow> last (p # ps))"

section \<open>Data model: \<^verbatim>\<open>JsonType\<close>, \<^verbatim>\<open>JsonAnnotation\<close>, \<^verbatim>\<open>JsonEntity\<close>, \<^verbatim>\<open>Line\<close>\<close>

datatype JsonType =
  OBJ_START | OBJ_END | ARR_START | ARR_END | EMPTY | STRING | NUMBER | BOOL | NULL

text \<open>
  \<^verbatim>\<open>JsonEntity\<close> is the subclass of \<^verbatim>\<open>JsonAnnotation\<close> that adds \<^verbatim>\<open>pair_idx\<close>,
  \<^verbatim>\<open>child_count\<close> and \<^verbatim>\<open>collapsed\<close>. An annotation object is a record of the base
  attributes; its \<open>entity\<close> part is present exactly when the object is a \<^verbatim>\<open>JsonEntity\<close>.
  Reading an attribute of the subclass on a plain \<^verbatim>\<open>JsonAnnotation\<close> raises
  \<^verbatim>\<open>AttributeError\<close>.
\<close>

record JsonEntity =
  pair_idx :: "int option"
  child_count :: int
  collapsed :: bool

record JsonAnnotation =
  type :: JsonType
  key :: "Span option"
  "value" :: Span
  color :: int
  hidden :: int
  entity :: "JsonEntity option"

definition JsonAnnotation_init :: "JsonType \<Rightarrow> Span option \<Rightarrow> Span \<Rightarrow> JsonAnnotation" where
  "JsonAnnotation_init t k v =
     \<lparr>type = t, key = k, value = v, color = 3, hidden = 0, entity = None\<rparr>"

definition JsonEntity_init :: "JsonType \<Rightarrow> Span option \<Rightarrow> Span \<Rightarrow> int option \<Rightarrow> JsonAnnotation" where
  "JsonEntity_init t k v p =
     \<lparr>type = t, key = k, value = v, color = 8, hidden = 0,
      entity = Some \<lparr>pair_idx = p, child_count = 0, collapsed = False\<rparr>\<rparr>"

definition collapsible :: "JsonAnnotation \<Rightarrow> bool" where
  "collapsible a = (type a = OBJ_START \<or> type a = ARR_START)"

record Line =
  s :: string
  colors :: "Color list"
  json :: "JsonAnnotation option"
  row :: "int option"
  offset :: int

text \<open>\<^verbatim>\<open>Line(s, row, colors)\<close>; an absent \<^verbatim>\<open>row\<close> is \<^verbatim>\<open>None\<close>, an absent or empty
  \<^verbatim>\<open>colors\<close> is a new empty list.\<close>

definition Line_init :: "string \<Rightarrow> int option \<Rightarrow> Color list \<Rightarrow> Line" where
  "Line_init txt r cs = \<lparr>s = txt, colors = cs, json = None, row = r, offset = 0\<rparr>"

text \<open>
  \<^verbatim>\<open>
  def increase_offset(self, scr_w):
      if not self.json:
          return
      self.offset = min(max(0, len(self.s) - scr_w + 3), self.offset + 10)

  def decrease_offset(self):
      self.offset = max(0, self.offset - 10)
  \<close>
\<close>

definition increase_offset :: "Line \<Rightarrow> int \<Rightarrow> Line" where
  "increase_offset l scr_w =
     (case json l of
        None \<Rightarrow> l
      | Some a \<Rightarrow> l\<lparr>offset := min (max 0 (int (length (s l)) - scr_w + 3)) (offset l + 10)\<rparr>)"

definition decrease_offset :: "Line \<Rightarrow> Line" where
  "decrease_offset l = l\<lparr>offset := max 0 (offset l - 10)\<rparr>"

text \<open>A string-annotated line shorter than the viewport, for the offset cap.\<close>

definition short_string_line :: Line where
  "short_string_line =
     (Line_init ''\"ab\"'' None [])\<lparr>json := Some (JsonAnnotation_init STRING None (0, 4))\<rparr>"

text \<open>A string-annotated line of 100 characters, for the offset steps.\<close>

definition long_string_line :: Line where
  "long_string_line =
     (Line_init (replicate 100 CHR ''x'') None [])
       \<lparr>json := Some (JsonAnnotation_init STRING None (0, 100))\<rparr>"

section \<open>Python sequence operations\<close>

text \<open>\<^verbatim>\<open>xs[i]\<close>: a negative index counts from the end; out of range raises \<^verbatim>\<open>IndexError\<close>.\<close>

definition py_index :: "nat \<Rightarrow> int \<Rightarrow> nat option" where
  "py_index len i =
     (if 0 \<le> i \<and> i < int len then Some (nat i)
      else if i < 0 \<and> - int len \<le> i then Some (nat (int len + i))
      else None)"

definition py_get :: "'a list \<Rightarrow> int \<Rightarrow> error + 'a" where
  "py_get xs i =
     (case py_index (length xs) i of
        Some k \<Rightarrow> Inr (xs ! k)
      | None \<Rightarrow> Inl IndexError)"

text \<open>\<^verbatim>\<open>xs[lo:hi]\<close>: a negative bound counts from the end, every bound is clamped to the
  sequence, an absent bound is \<^const>\<open>None\<close>; a slice never raises.\<close>

definition py_bound :: "nat \<Rightarrow> int \<Rightarrow> nat" where
  "py_bound n i = (if i < 0 then nat (max 0 (int n + i)) else min n (nat i))"

definition py_slice :: "'a list \<Rightarrow> int option \<Rightarrow> int option \<Rightarrow> 'a list" where
  "py_slice xs lo hi =
     (let n = length xs;
          a = (case lo of None \<Rightarrow> 0 | Some i \<Rightarrow> py_bound n i);
          b = (case hi of None \<Rightarrow> n | Some j \<Rightarrow> py_bound n j)
      in take (b - a) (drop a xs))"

text \<open>\<^verbatim>\<open>range(a, b)\<close> and \<^verbatim>\<open>range(a, -1, -1)\<close>.\<close>

definition py_range :: "int \<Rightarrow> int \<Rightarrow> int list" where
  "py_range a b = [a..b - 1]"

definition py_range_down :: "int \<Rightarrow> int list" where
  "py_range_down a = rev [0..a]"

text \<open>\<^verbatim>\<open>str(n)\<close> and \<^verbatim>\<open>'{0}'.format(n)\<close> for an integer: decimal digits, a minus sign
  when negative.\<close>

fun digits :: "nat \<Rightarrow> string" where
  "digits n =
     (if n < 10 then [char_of (48 + n)] else digits (n div 10) @ [char_of (48 + n mod 10)])"

definition str_int :: "int \<Rightarrow> string" where
  "str_int i = (if i < 0 then CHR ''-'' # digits (nat (- i)) else digits (nat i))"

text \<open>
  The character U+2026 (horizontal ellipsis) of the summary, elision and truncation
  markers is one character of a Python string. \<^typ>\<open>char\<close> has 8 bits, so it is
  represented by one reserved character, the substitute character 0x1A, which is neither
  white space nor a line boundary.
\<close>

definition ellipsis :: char where
  "ellipsis = CHR 0x1A"

section \<open>Rendering one line: \<^verbatim>\<open>Line.draw\<close> on a store of list objects\<close>

text \<open>
  A Python list is a mutable object: \<^verbatim>\<open>colors = self.colors\<close> binds the local name to the
  very list the line stores, and \<^verbatim>\<open>colors[i] = ...\<close> or \<^verbatim>\<open>colors += ...\<close> change the
  object in place. The store holds the list objects; an address is an index into it, and a
  new list is allocated at the end. Strings and tuples are immutable and are values.
\<close>

type_synonym heap = "Color list list"

definition alloc :: "heap \<Rightarrow> Color list \<Rightarrow> heap \<times> nat" where
  "alloc h xs = (h @ [xs], length h)"

text \<open>
  \<^verbatim>\<open>add_color_span\<close> on the store. \<^verbatim>\<open>[(0, prev_color)] + colors\<close>, the comprehension
  and \<^verbatim>\<open>sorted\<close> each build a new list; \<^verbatim>\<open>colors += [...]\<close> extends in place the list
  the local name is bound to at that point. (The list built inside the \<^verbatim>\<open>try\<close> is
  dropped at once and is not allocated here.)
\<close>

definition add_color_span_h :: "heap \<Rightarrow> nat \<Rightarrow> int \<Rightarrow> int \<Rightarrow> int \<Rightarrow> heap \<times> nat" where
  "add_color_span_h h r color_i st w =
     (let (h1, r1, prev_color) =
            (case map snd [c \<leftarrow> h ! r. fst c \<le> st + w] of
               [] \<Rightarrow> (let (h', r') = alloc h ((0, 1) # h ! r) in (h', r', 1))
             | p # ps \<Rightarrow> (h, r, last (p # ps)));
          (h2, r2) = alloc h1 [x \<leftarrow> h1 ! r1. fst x \<noteq> st];
          h3 = h2[r2 := h2 ! r2 @ [(st, color_i), (st + w, prev_color)]]
      in alloc h3 (sort_key fst (h3 ! r2)))"

text \<open>One call \<^verbatim>\<open>scr.addstr(row, col, text, curses.color_pair(color_i))\<close>.\<close>

type_synonym addstr = "int \<times> int \<times> string \<times> int"

text \<open>
  \<^verbatim>\<open>
  if self.json and (self.json.type is JsonType.ARR_START or self.json.type is JsonType.OBJ_START):
      prefix = s[:self.json.value[0]]
      if self.json.collapsed:
          if self.json.type is JsonType.ARR_START:
              suffix = '[ ... count: {0} ]'.format(self.json.child_count)
          elif self.json.type is JsonType.OBJ_START:
              suffix = '{ ... }'
          s = prefix + suffix
          colors = self.add_color_span(colors, 9, len(prefix)+2, len(suffix)-4)
          colors = self.add_color_span(colors, self.json.color, len(prefix) + len(suffix) - 1, 1)
      elif self.json.type is JsonType.ARR_START:
          suffix = '[ count: {0}'.format(self.json.child_count)
          s = prefix + suffix
          colors = self.add_color_span(colors, 9, len(prefix) + 1, len(suffix) - 1)
  \<close>
  (the three dots stand for U+2026). The local state of \<^verbatim>\<open>draw\<close> is the store, the
  address bound to \<^verbatim>\<open>colors\<close> and the string \<^verbatim>\<open>s\<close>.
\<close>

definition draw_container :: "Line \<Rightarrow> heap \<times> nat \<times> string \<Rightarrow> error + heap \<times> nat \<times> string" where
  "draw_container l = (\<lambda>(h, r, txt).
     case json l of
       None \<Rightarrow> Inr (h, r, txt)
     | Some a \<Rightarrow>
         if type a = ARR_START \<or> type a = OBJ_START then
           (case entity a of
              None \<Rightarrow> Inl AttributeError
            | Some e \<Rightarrow>
                let prefix = py_slice txt None (Some (fst (value a)))
                in if collapsed e then
                     let suffix = (if type a = ARR_START
                                   then ''[ '' @ [ellipsis] @ '' count: '' @ str_int (child_count e) @ '' ]''
                                   else ''{ '' @ [ellipsis] @ '' }'');
                         (h1, r1) = add_color_span_h h r 9 (int (length prefix) + 2)
                                      (int (length suffix) - 4);
                         (h2, r2) = add_color_span_h h1 r1 (color a)
                                      (int (length prefix) + int (length suffix) - 1) 1
                     in Inr (h2, r2, prefix @ suffix)
                   else if type a = ARR_START then
                     let suffix = ''[ count: '' @ str_int (child_count e);
                         (h1, r1) = add_color_span_h h r 9 (int (length prefix) + 1)
                                      (int (length suffix) - 1)
                     in Inr (h1, r1, prefix @ suffix)
                   else Inr (h, r, txt))
         else Inr (h, r, txt))"

text \<open>
  \<^verbatim>\<open>
  if self.json and self.json.type is JsonType.STRING and self.offset:
      prefix = s[:self.json.value[0]+1]
      s = prefix + '[...]' + s[self.json.value[0]+1+self.offset:]
      colors = self.add_color_span(colors, 5, len(prefix), 3)
      for i, color in enumerate(colors):
          if color[0] > len(prefix):
              colors[i] = (max(len(prefix), color[0] - self.offset) + 3, color[1])
  \<close>
  The loop replaces, in place, the element at the index it is visiting and no other, so it
  leaves in the list object the image of every element.
\<close>

definition shift_color :: "int \<Rightarrow> int \<Rightarrow> Color \<Rightarrow> Color" where
  "shift_color n off c = (if fst c > n then (max n (fst c - off) + 3, snd c) else c)"

definition draw_elide :: "Line \<Rightarrow> heap \<times> nat \<times> string \<Rightarrow> heap \<times> nat \<times> string" where
  "draw_elide l = (\<lambda>(h, r, txt).
     case json l of
       None \<Rightarrow> (h, r, txt)
     | Some a \<Rightarrow>
         if type a = STRING \<and> offset l \<noteq> 0 then
           let prefix = py_slice txt None (Some (fst (value a) + 1));
               txt' = prefix @ ''['' @ [ellipsis] @ '']''
                        @ py_slice txt (Some (fst (value a) + 1 + offset l)) None;
               (h1, r1) = add_color_span_h h r 5 (int (length prefix)) 3;
               h2 = h1[r1 := map (shift_color (int (length prefix)) (offset l)) (h1 ! r1)]
           in (h2, r1, txt')
         else (h, r, txt))"

text \<open>
  \<^verbatim>\<open>
  if len(s) > w:
      s = s[:w-3] + '[...]'
      colors = self.add_color_span(colors, 5, len(s)-3, 3)
  s = s + ' '*(w - len(s))
  if cursor_span:
      colors = self.add_color_span(colors, 2, cursor_span[0], cursor_span[1] - cursor_span[0])
  \<close>
\<close>

definition draw_truncate :: "int \<Rightarrow> heap \<times> nat \<times> string \<Rightarrow> heap \<times> nat \<times> string" where
  "draw_truncate w = (\<lambda>(h, r, txt).
     if int (length txt) > w then
       let txt' = py_slice txt None (Some (w - 3)) @ ''['' @ [ellipsis] @ '']'';
           (h1, r1) = add_color_span_h h r 5 (int (length txt') - 3) 3
       in (h1, r1, txt')
     else (h, r, txt))"

definition draw_pad :: "int \<Rightarrow> heap \<times> nat \<times> string \<Rightarrow> heap \<times> nat \<times> string" where
  "draw_pad w = (\<lambda>(h, r, txt). (h, r, txt @ replicate (nat (w - int (length txt))) CHR '' ''))"

definition draw_cursor :: "Span option \<Rightarrow> heap \<times> nat \<times> string \<Rightarrow> heap \<times> nat \<times> string" where
  "draw_cursor cursor_span = (\<lambda>(h, r, txt).
     case cursor_span of
       None \<Rightarrow> (h, r, txt)
     | Some (a, b) \<Rightarrow> (let (h1, r1) = add_color_span_h h r 2 a (b - a) in (h1, r1, txt)))"

text \<open>
  \<^verbatim>\<open>
  col, color_i = colors[0]
  for next_col, next_color_i in colors[1:]:
      next_col = min(next_col, w)
      if next_col > col:
          scr.addstr(row, col, s[col:next_col], curses.color_pair(color_i))
      col, color_i = next_col, next_color_i
  if col < w:
      scr.addstr(row, col, s[col:], curses.color_pair(color_i))
  \<close>
\<close>

fun paint :: "int \<Rightarrow> int \<Rightarrow> string \<Rightarrow> int \<Rightarrow> int \<Rightarrow> Color list \<Rightarrow> addstr list" where
  "paint y w txt col color_i [] =
     (if col < w then [(y, col, py_slice txt (Some col) None, color_i)] else [])"
| "paint y w txt col color_i ((next_col, next_color_i) # rest) =
     (let nc = min next_col w
      in (if nc > col then [(y, col, py_slice txt (Some col) (Some nc), color_i)] else [])
         @ paint y w txt nc next_color_i rest)"

definition draw_paint :: "int \<Rightarrow> int \<Rightarrow> string \<Rightarrow> Color list \<Rightarrow> error + addstr list" where
  "draw_paint y w txt cs =
     (case cs of
        [] \<Rightarrow> Inl IndexError
      | (col, color_i) # rest \<Rightarrow> Inr (paint y w txt col color_i rest))"

text \<open>
  \<^verbatim>\<open>Line.draw(self, scr, row, w, cursor_span)\<close>: \<open>r\<close> is the address of the list object
  \<^verbatim>\<open>self.colors\<close>; the attributes \<^verbatim>\<open>s\<close>, \<^verbatim>\<open>json\<close> and \<^verbatim>\<open>offset\<close>, which the method
  reads and never assigns, come from \<open>l\<close>. The result is the store after the call and
  either the exception raised or the calls made on the screen.
  \<^verbatim>\<open>
  colors = self.colors
  if len(colors) == 0:
      colors = [(0, 1)]
  s = self.s
  \<close>
\<close>

definition draw_init :: "heap \<Rightarrow> nat \<Rightarrow> Line \<Rightarrow> heap \<times> nat \<times> string" where
  "draw_init h r l =
     (if length (h ! r) = 0 then (let (h0, r0) = alloc h [(0, 1)] in (h0, r0, s l))
      else (h, r, s l))"

definition draw_h :: "heap \<Rightarrow> nat \<Rightarrow> Line \<Rightarrow> int \<Rightarrow> int \<Rightarrow> Span option \<Rightarrow> heap \<times> (error + addstr list)" where
  "draw_h h r l y w cursor_span =
     (case draw_container l (draw_init h r l) of
        Inl e \<Rightarrow> (fst (draw_init h r l), Inl e)
      | Inr st1 \<Rightarrow>
          (let (h5, r5, txt5) = draw_cursor cursor_span (draw_pad w (draw_truncate w (draw_elide l st1)))
           in (h5, draw_paint y w txt5 (h5 ! r5))))"

text \<open>A store with the list of one line at address 0, and a collapsed array start.\<close>

definition demo_heap :: heap where
  "demo_heap = [[(0, 1), (4, 7), (7, 1), (9, 8), (10, 1)]]"

definition demo_array_line :: Line where
  "demo_array_line =
     (Line_init ''    \"b\": ['' (Some 2) [(0, 1), (4, 7), (7, 1), (9, 8), (10, 1)])
       \<lparr>json := Some ((JsonEntity_init ARR_START (Some (4, 7)) (9, 10) (Some 6))
                        \<lparr>entity := Some \<lparr>pair_idx = Some 6, child_count = 3, collapsed = True\<rparr>\<rparr>)\<rparr>"

text \<open>The frame of a store: every list object that existed before is still there, unchanged.\<close>

definition frame :: "heap \<Rightarrow> heap \<Rightarrow> bool" where
  "frame h h' = (length h \<le> length h' \<and> (\<forall>a<length h. h' ! a = h ! a))"

text \<open>The local state of \<^verbatim>\<open>draw\<close> is sound for the store \<open>h0\<close> of the caller when it
  frames \<open>h0\<close> and \<^verbatim>\<open>colors\<close> is bound to an allocated list.\<close>

definition local_ok :: "heap \<Rightarrow> heap \<times> nat \<times> string \<Rightarrow> bool" where
  "local_ok h0 = (\<lambda>(h, r, tx). frame h0 h \<and> r < length h)"

section \<open>Python string operations\<close>

text \<open>
  \<^verbatim>\<open>str.isspace\<close> on one character, which is also the class \<^verbatim>\<open>\s\<close> of a \<^verbatim>\<open>str\<close> pattern:
  among the characters below 256 these are tab, line feed, vertical tab, form feed,
  carriage return, 0x1C to 0x1F, space, 0x85 and 0xA0.
\<close>

definition isspace :: "char \<Rightarrow> bool" where
  "isspace c = (c \<in> {CHR 0x09, CHR 0x0A, CHR 0x0B, CHR 0x0C, CHR 0x0D, CHR 0x1C, CHR 0x1D,
                     CHR 0x1E, CHR 0x1F, CHR 0x20, CHR 0x85, CHR 0xA0})"

definition lstrip :: "string \<Rightarrow> string" where
  "lstrip str = dropWhile isspace str"

definition rstrip :: "string \<Rightarrow> string" where
  "rstrip str = rev (dropWhile isspace (rev str))"

text \<open>
  \<^verbatim>\<open>str.splitlines()\<close>: the line boundaries below 256 are line feed, carriage return,
  carriage return followed by line feed, vertical tab, form feed, 0x1C, 0x1D, 0x1E and
  0x85; the boundaries are dropped, and there is no empty last line.
\<close>

definition is_linebreak :: "char \<Rightarrow> bool" where
  "is_linebreak c = (c \<in> {CHR 0x0A, CHR 0x0B, CHR 0x0C, CHR 0x0D, CHR 0x1C, CHR 0x1D,
                          CHR 0x1E, CHR 0x85})"

fun splitlines_from :: "string \<Rightarrow> string \<Rightarrow> string list" where
  "splitlines_from cur [] = (if cur = [] then [] else [cur])"
| "splitlines_from cur (c # cs) =
     (if c = CHR 0x0D then
        (case cs of
           [] \<Rightarrow> cur # splitlines_from [] cs
         | d # ds \<Rightarrow> if d = CHR 0x0A then cur # splitlines_from [] ds
                     else cur # splitlines_from [] cs)
      else if is_linebreak c then cur # splitlines_from [] cs
      else splitlines_from (cur @ [c]) cs)"

definition splitlines :: "string \<Rightarrow> string list" where
  "splitlines str = splitlines_from [] str"

section \<open>\<^verbatim>\<open>json.dumps(obj, indent=4)\<close>\<close>

text \<open>
  \<^verbatim>\<open>json.dumps\<close> belongs to the Python standard library, not to the repository. It is
  modelled, from its documentation, on the values built from \<^verbatim>\<open>None\<close>, booleans, integers,
  strings of characters below 256, lists, and dicts with string keys (in insertion order):
  with an indent the item separator is a comma, the key separator is a colon and a space,
  each item of a non-empty container is on a line of its own, indented by 4 columns per
  level, and an empty container is \<^verbatim>\<open>[]\<close> or \<^verbatim>\<open>{}\<close>. Strings are written with
  \<^verbatim>\<open>ensure_ascii\<close>: the quote and the backslash are escaped, so are backspace, form feed,
  line feed, carriage return and tab, and every other character outside space to tilde is
  written \<^verbatim>\<open>\u00xx\<close>.
\<close>

datatype json_value =
  JNull | JBool bool | JInt int | JStr string
  | JList "json_value list" | JDict "(string \<times> json_value) list"

definition hex_digit :: "nat \<Rightarrow> char" where
  "hex_digit n = (if n < 10 then char_of (48 + n) else char_of (87 + n))"

definition escape_char :: "char \<Rightarrow> string" where
  "escape_char c =
     (if c = CHR 0x22 then [CHR 0x5C, CHR 0x22]
      else if c = CHR 0x5C then [CHR 0x5C, CHR 0x5C]
      else if c = CHR 0x08 then [CHR 0x5C, CHR ''b'']
      else if c = CHR 0x0C then [CHR 0x5C, CHR ''f'']
      else if c = CHR 0x0A then [CHR 0x5C, CHR ''n'']
      else if c = CHR 0x0D then [CHR 0x5C, CHR ''r'']
      else if c = CHR 0x09 then [CHR 0x5C, CHR ''t'']
      else if of_char c < (32::nat) \<or> of_char c > (126::nat) then
        [CHR 0x5C, CHR ''u'', CHR ''0'', CHR ''0'',
         hex_digit (of_char c div 16), hex_digit (of_char c mod 16)]
      else [c])"

definition encode_string :: "string \<Rightarrow> string" where
  "encode_string str = [CHR 0x22] @ concat (map escape_char str) @ [CHR 0x22]"

definition newline_indent :: "nat \<Rightarrow> string" where
  "newline_indent level = CHR 0x0A # replicate (4 * level) CHR '' ''"

fun join :: "string \<Rightarrow> string list \<Rightarrow> string" where
  "join sep [] = []"
| "join sep [x] = x"
| "join sep (x # y # ys) = x @ sep @ join sep (y # ys)"

fun dumps :: "nat \<Rightarrow> json_value \<Rightarrow> string" where
  "dumps level JNull = ''null''"
| "dumps level (JBool b) = (if b then ''true'' else ''false'')"
| "dumps level (JInt i) = str_int i"
| "dumps level (JStr str) = encode_string str"
| "dumps level (JList []) = ''[]''"
| "dumps level (JList (x # xs)) =
     ''['' @ newline_indent (Suc level)
       @ join ('','' @ newline_indent (Suc level)) (map (dumps (Suc level)) (x # xs))
       @ newline_indent level @ '']''"
| "dumps level (JDict []) = ''{}''"
| "dumps level (JDict (kv # kvs)) =
     ''{'' @ newline_indent (Suc level)
       @ join ('','' @ newline_indent (Suc level))
           (map (\<lambda>item. encode_string (fst item) @ '': '' @ dumps (Suc level) (snd item)) (kv # kvs))
       @ newline_indent level @ ''}''"

definition json_dumps :: "json_value \<Rightarrow> string" where
  "json_dumps obj = dumps 0 obj"

section \<open>The viewer: \<^verbatim>\<open>LinesDisplay\<close>\<close>

datatype Mode = SCROLL | JSON

text \<open>
  The attributes of \<^verbatim>\<open>LinesDisplay\<close> that the navigation reads and writes. The size of the
  terminal, which the code reads with \<^verbatim>\<open>scr.getmaxyx()\<close>, is part of the state as
  \<open>height\<close> and \<open>width\<close>. The lines of \<open>content\<close> are distinct objects (every one is built
  by \<^verbatim>\<open>Line(...)\<close> where it is appended), so an in-place change of one line is an update of
  the list at its position.
\<close>

record LinesDisplay =
  started :: bool
  mode :: Mode
  top_row :: int
  bottom_row :: int
  content :: "Line list"
  header :: Line
  cursor_row :: "int option"
  footer :: Line
  height :: int
  width :: int

text \<open>\<^verbatim>\<open>LinesDisplay()\<close> on a terminal of the given size; nothing is started yet.\<close>

definition LinesDisplay_init :: "int \<Rightarrow> int \<Rightarrow> LinesDisplay" where
  "LinesDisplay_init h w =
     \<lparr>started = False, mode = SCROLL, top_row = 0, bottom_row = 0, content = [],
      header = Line_init [] None [], cursor_row = None, footer = Line_init [] None [],
      height = h, width = w\<rparr>"

text \<open>\<^verbatim>\<open>start\<close> (the curses set-up of \<^verbatim>\<open>Display.start\<close> sets \<^verbatim>\<open>started\<close>) and \<^verbatim>\<open>stop\<close>.\<close>

definition start :: "LinesDisplay \<Rightarrow> LinesDisplay" where
  "start d = d\<lparr>started := True, top_row := 0, bottom_row := 0, content := []\<rparr>"

definition stop :: "LinesDisplay \<Rightarrow> LinesDisplay" where
  "stop d = d\<lparr>started := False\<rparr>"

text \<open>
  \<^verbatim>\<open>
  if line.json and line.json.collapsible() and line.json.collapsed:
      idx += line.json.pair_idx - line.row
  \<close>
  the rows a collapsed start makes \<^verbatim>\<open>draw\<close> skip.
\<close>

definition collapsed_skip :: "Line \<Rightarrow> error + int" where
  "collapsed_skip l =
     (case json l of
        None \<Rightarrow> Inr 0
      | Some a \<Rightarrow>
          if collapsible a then
            (case entity a of
               None \<Rightarrow> Inl AttributeError
             | Some e \<Rightarrow>
                 if collapsed e then
                   (case (pair_idx e, row l) of
                      (Some p, Some r) \<Rightarrow> Inr (p - r)
                    | _ \<Rightarrow> Inl TypeError)
                 else Inr 0)
          else Inr 0)"

text \<open>
  \<^verbatim>\<open>
  idx = self.top_row
  while idx < len(self.content) and content_space > 0:
      line = self.content[idx]
      lines.append(line)
      ...
      idx += 1
      content_space -= 1
  \<close>
  The loop runs at most \<^verbatim>\<open>content_space\<close> times; the result is the final \<^verbatim>\<open>idx\<close>.
\<close>

fun draw_loop :: "Line list \<Rightarrow> nat \<Rightarrow> int \<Rightarrow> error + int" where
  "draw_loop ls 0 idx = Inr idx"
| "draw_loop ls (Suc content_space) idx =
     (if idx < int (length ls) then
        (case py_get ls idx of
           Inl e \<Rightarrow> Inl e
         | Inr l \<Rightarrow>
             (case collapsed_skip l of
                Inl e \<Rightarrow> Inl e
              | Inr d \<Rightarrow> draw_loop ls content_space (idx + d + 1)))
      else Inr idx)"

text \<open>
  \<^verbatim>\<open>LinesDisplay.draw\<close>: it starts the display when it is not started, collects the lines
  to show from \<^verbatim>\<open>top_row\<close> on, sets \<^verbatim>\<open>bottom_row = max(0, idx-1)\<close> and hands the lines to
  \<^verbatim>\<open>draw_lines\<close>, which calls \<^verbatim>\<open>Line.draw\<close> on each. The calls on the screen are output
  only and are not part of this state.
\<close>

definition draw :: "LinesDisplay \<Rightarrow> error + LinesDisplay" where
  "draw d0 =
     (let d = (if started d0 then d0 else start d0)
      in case draw_loop (content d) (nat (height d - 1 - 1)) (top_row d) of
           Inl e \<Rightarrow> Inl e
         | Inr idx \<Rightarrow> Inr (d\<lparr>bottom_row := max 0 (idx - 1)\<rparr>))"

text \<open>
  \<^verbatim>\<open>
  def print(self, s: str, flush: bool = True):
      if not self.started:
          self.start()
      new_lines = [Line(x) for x in s.splitlines()]
      if new_lines and self.content and not flush:
          # Merge the last line, and the first of the new lines
          first_new_line = new_lines[0]
          new_lines = new_lines[1:]
          prev_line = self.content[-1]
          self.content = self.content[:-1] + [Line(prev_line.s + first_new_line.s)]
      self.content += new_lines
      self.draw()
  \<close>
\<close>

definition print :: "LinesDisplay \<Rightarrow> string \<Rightarrow> bool \<Rightarrow> error + LinesDisplay" where
  "print d0 str flush =
     (let d = (if started d0 then d0 else start d0);
          new_lines = map (\<lambda>x. Line_init x None []) (splitlines str)
      in if new_lines \<noteq> [] \<and> content d \<noteq> [] \<and> \<not> flush then
           (let first_new_line = hd new_lines;
                prev_line = last (content d)
            in draw (d\<lparr>content := butlast (content d)
                                   @ [Line_init (s prev_line @ s first_new_line) None []]
                                   @ tl new_lines\<rparr>))
         else draw (d\<lparr>content := content d @ new_lines\<rparr>))"

section \<open>The structural annotator: \<^verbatim>\<open>print_json\<close>\<close>

text \<open>
  The key-value pattern \<^verbatim>\<open>\s*?(\".*?\")(\s?:\s?)(.*?)$\<close>, applied with \<^verbatim>\<open>re.match\<close> to one
  line of \<^verbatim>\<open>splitlines()\<close>, which holds no line feed, so that \<^verbatim>\<open>.\<close> matches every
  character of it and \<^verbatim>\<open>$\<close> matches at its end only.

  \<^item> \<^verbatim>\<open>\s*?\<close> has to stop in front of a quote, and a quote is not white space: it takes
    all the leading white space, and the next character must be the quote.
  \<^item> \<^verbatim>\<open>.*?\"\<close> tries the quotes after the opening one from left to right, and takes the
    first one after which \<^verbatim>\<open>\s?:\s?\<close> matches.
  \<^item> \<^verbatim>\<open>\s?:\<close> is one white-space character and a colon, or a colon; the second
    \<^verbatim>\<open>\s?\<close> takes a white-space character when there is one, since the rest
    \<^verbatim>\<open>(.*?)$\<close> matches whatever is left.

  \<open>sep_match\<close> gives the length of group 2 for the text behind the closing quote,
  \<open>key_end\<close> the end of group 1 and the start of group 3.
\<close>

definition opt_space :: "string \<Rightarrow> nat" where
  "opt_space rest = (case rest of [] \<Rightarrow> 0 | c # cs \<Rightarrow> if isspace c then 1 else 0)"

definition sep_match :: "string \<Rightarrow> nat option" where
  "sep_match rest =
     (case rest of
        [] \<Rightarrow> None
      | c # rest1 \<Rightarrow>
          if isspace c then
            (case rest1 of
               [] \<Rightarrow> None
             | d # rest2 \<Rightarrow> if d = CHR '':'' then Some (2 + opt_space rest2) else None)
          else if c = CHR '':'' then Some (1 + opt_space rest1)
          else None)"

fun key_end :: "nat \<Rightarrow> string \<Rightarrow> (nat \<times> nat) option" where
  "key_end pos [] = None"
| "key_end pos (c # cs) =
     (if c = CHR 0x22 then
        (case sep_match cs of
           Some n \<Rightarrow> Some (pos + 1, pos + 1 + n)
         | None \<Rightarrow> key_end (pos + 1) cs)
      else key_end (pos + 1) cs)"

text \<open>\<open>kv_match\<close> gives \<^verbatim>\<open>(kv_match.span(1), kv_match.span(3))\<close>, or \<^const>\<open>None\<close> when the
  pattern does not match.\<close>

definition kv_match :: "string \<Rightarrow> (Span \<times> Span) option" where
  "kv_match line_str =
     (let k = length (takeWhile isspace line_str)
      in case drop k line_str of
           [] \<Rightarrow> None
         | c # cs \<Rightarrow>
             if c = CHR 0x22 then
               (case key_end (k + 1) cs of
                  None \<Rightarrow> None
                | Some (ke, vs) \<Rightarrow> Some ((int k, int ke), (int vs, int (length line_str))))
             else None)"

text \<open>
  \<^verbatim>\<open>
  start_line.json.child_count = 0
  for l in lines[entity_start: i]:
      lstripped = l.s.lstrip()
      if lstripped[0] == ']' or lstripped[0] == '}':
          continue
      if len(l.s) - len(l.s.lstrip()) == start_indentation + 4:
          start_line.json.child_count += 1
  \<close>
\<close>

fun count_children :: "int \<Rightarrow> Line list \<Rightarrow> error + int" where
  "count_children start_indentation [] = Inr 0"
| "count_children start_indentation (l # ls) =
     (case py_get (lstrip (s l)) 0 of
        Inl e \<Rightarrow> Inl e
      | Inr c \<Rightarrow>
          (case count_children start_indentation ls of
             Inl e \<Rightarrow> Inl e
           | Inr n \<Rightarrow>
               if c = CHR '']'' \<or> c = CHR ''}'' then Inr n
               else if int (length (s l)) - int (length (lstrip (s l))) = start_indentation + 4
               then Inr (n + 1)
               else Inr n))"

text \<open>\<^verbatim>\<open>stack.pop()\<close>: the last element and the rest, \<^verbatim>\<open>IndexError\<close> on an empty list.\<close>

definition py_pop :: "'a list \<Rightarrow> error + 'a \<times> 'a list" where
  "py_pop xs = (if xs = [] then Inl IndexError else Inr (last xs, butlast xs))"

text \<open>\<^verbatim>\<open>lines[entity_start].json.pair_idx = p\<close>, and for an array the child count as
  well. The rows on the stack are rows of \<^verbatim>\<open>JsonEntity\<close> lines: a row is pushed only
  together with such an annotation. The other two cases are there for totality.\<close>

definition set_pair :: "Line list \<Rightarrow> int \<Rightarrow> int \<Rightarrow> int option \<Rightarrow> error + Line list" where
  "set_pair ls entity_start p cnt =
     (case py_index (length ls) entity_start of
        None \<Rightarrow> Inl IndexError
      | Some k \<Rightarrow>
          (case json (ls ! k) of
             None \<Rightarrow> Inl AttributeError
           | Some a \<Rightarrow>
               (case entity a of
                  None \<Rightarrow> Inl AttributeError
                | Some e \<Rightarrow>
                    Inr (ls[k := (ls ! k)\<lparr>json := Some (a\<lparr>entity := Some (e\<lparr>pair_idx := Some p,
                            child_count := (case cnt of None \<Rightarrow> child_count e | Some n \<Rightarrow> n)\<rparr>)\<rparr>)\<rparr>]))))"

text \<open>
  The chain \<^verbatim>\<open>if value == '[' ... elif ... else\<close> of \<^verbatim>\<open>print_json\<close>: it gives the
  annotation of the line and the new \<^verbatim>\<open>lines\<close> and \<^verbatim>\<open>stack\<close>.
\<close>

definition classify ::
  "int \<Rightarrow> int \<Rightarrow> string \<Rightarrow> Span option \<Rightarrow> Span \<Rightarrow> Line list \<Rightarrow> int list
     \<Rightarrow> error + JsonAnnotation \<times> Line list \<times> int list" where
  "classify i num_existing_lines val key_span value_span ls stack =
     (if val = ''['' then
        Inr (JsonEntity_init ARR_START key_span value_span None, ls, stack @ [i])
      else if val = ''{'' then
        Inr (JsonEntity_init OBJ_START key_span value_span None, ls, stack @ [i])
      else if val = '']'' then
        (case py_pop stack of
           Inl e \<Rightarrow> Inl e
         | Inr (entity_start, stack') \<Rightarrow>
             (case py_get ls entity_start of
                Inl e \<Rightarrow> Inl e
              | Inr start_line \<Rightarrow>
                  (case count_children
                          (int (length (s start_line)) - int (length (lstrip (s start_line))))
                          (py_slice ls (Some entity_start) (Some i)) of
                     Inl e \<Rightarrow> Inl e
                   | Inr n \<Rightarrow>
                       (case set_pair ls entity_start (i + num_existing_lines) (Some n) of
                          Inl e \<Rightarrow> Inl e
                        | Inr ls' \<Rightarrow>
                            Inr (JsonEntity_init ARR_END key_span value_span (Some entity_start),
                                 ls', stack')))))
      else if val = ''}'' then
        (case py_pop stack of
           Inl e \<Rightarrow> Inl e
         | Inr (entity_start, stack') \<Rightarrow>
             (case set_pair ls entity_start (i + num_existing_lines) None of
                Inl e \<Rightarrow> Inl e
              | Inr ls' \<Rightarrow>
                  Inr (JsonEntity_init OBJ_END key_span value_span (Some entity_start),
                       ls', stack')))
      else if val = ''[]'' \<or> val = ''{}'' then
        Inr (JsonEntity_init EMPTY key_span value_span None, ls, stack)
      else if val = ''null'' then
        Inr (JsonAnnotation_init NULL key_span value_span, ls, stack)
      else if val = ''true'' \<or> val = ''false'' then
        Inr (JsonAnnotation_init BOOL key_span value_span, ls, stack)
      else
        (case py_get val 0 of
           Inl e \<Rightarrow> Inl e
         | Inr c0 \<Rightarrow>
             (case py_get val (- 1) of
                Inl e \<Rightarrow> Inl e
              | Inr c1 \<Rightarrow>
                  if c0 = CHR 0x22 \<and> c1 = CHR 0x22 then
                    Inr (JsonAnnotation_init STRING key_span value_span, ls, stack)
                  else Inr (JsonAnnotation_init NUMBER key_span value_span, ls, stack))))"

text \<open>\<^verbatim>\<open>tuple(x+len(old_line.s) for x in span)\<close>.\<close>

definition shift_span :: "int \<Rightarrow> Span \<Rightarrow> Span" where
  "shift_span n sp = (fst sp + n, snd sp + n)"

text \<open>
  One round of the loop \<^verbatim>\<open>for i, line_str in enumerate(as_str.splitlines())\<close>. The
  state of the loop is \<^verbatim>\<open>lines\<close>, \<^verbatim>\<open>stack\<close> and \<^verbatim>\<open>self.content\<close>, which the round for
  \<^verbatim>\<open>i == 0\<close> shortens when the previous line is not flushed. The annotation object is the
  one stored in the line, so the colour spans are taken from the spans after the shift.
\<close>

definition print_json_line ::
  "int \<Rightarrow> bool \<Rightarrow> Line list \<times> int list \<times> Line list \<Rightarrow> int \<times> string
     \<Rightarrow> error + Line list \<times> int list \<times> Line list" where
  "print_json_line num_existing_lines flush = (\<lambda>(ls, stack, cont) (i, line_str).
     let line = Line_init line_str None [];
         unindented = lstrip line_str
     in if length unindented = 0 then Inr (ls @ [line], stack, cont)
        else
          let (key_span, value_span0) =
                (case kv_match line_str of
                   Some (ks, vs) \<Rightarrow> (Some ks, vs)
                 | None \<Rightarrow> (None, (int (length (s line)) - int (length unindented),
                                   max 0 (int (length (rstrip (s line)))))));
              val0 = py_slice (s line) (Some (fst value_span0)) (Some (snd value_span0))
          in case py_get val0 (- 1) of
               Inl e \<Rightarrow> Inl e
             | Inr c \<Rightarrow>
                 let (val, value_span) =
                       (if c = CHR '','' then (py_slice val0 None (Some (- 1)),
                                               (fst value_span0, snd value_span0 - 1))
                        else (val0, value_span0))
                 in case classify i num_existing_lines val key_span value_span ls stack of
                      Inl e \<Rightarrow> Inl e
                    | Inr (annotation0, ls', stack') \<Rightarrow>
                        let merge = (i = 0 \<and> \<not> flush \<and> cont \<noteq> []);
                            old_s = (if merge then s (last cont) else []);
                            annotation =
                              (if merge then
                                 annotation0\<lparr>key := map_option (shift_span (int (length old_s)))
                                                         (key annotation0),
                                             value := shift_span (int (length old_s))
                                                        (value annotation0)\<rparr>
                               else annotation0);
                            cont' = (if merge then butlast cont else cont);
                            colors1 = add_color_span [] (color annotation)
                                        (fst (value annotation))
                                        (snd (value annotation) - fst (value annotation));
                            colors2 =
                              (case key annotation of
                                 None \<Rightarrow> colors1
                               | Some ks \<Rightarrow> add_color_span colors1 7 (fst ks) (snd ks - fst ks))
                        in Inr (ls' @ [line\<lparr>s := old_s @ s line, json := Some annotation,
                                            colors := colors2\<rparr>],
                                stack', cont'))"

fun print_json_loop ::
  "int \<Rightarrow> bool \<Rightarrow> Line list \<times> int list \<times> Line list \<Rightarrow> (int \<times> string) list
     \<Rightarrow> error + Line list \<times> int list \<times> Line list" where
  "print_json_loop n flush st [] = Inr st"
| "print_json_loop n flush st (x # xs) =
     (case print_json_line n flush st x of
        Inl e \<Rightarrow> Inl e
      | Inr st' \<Rightarrow> print_json_loop n flush st' xs)"

text \<open>\<^verbatim>\<open>for idx, line in enumerate(self.content): line.row = idx\<close>.\<close>

definition renumber :: "Line list \<Rightarrow> Line list" where
  "renumber ls = map (\<lambda>(idx, l). l\<lparr>row := Some (int idx)\<rparr>) (enumerate 0 ls)"

text \<open>
  \<^verbatim>\<open>print_json\<close> on the text \<^verbatim>\<open>as_str\<close> that \<^verbatim>\<open>json.dumps(obj, indent=4)\<close> returned.
  Unlike \<^verbatim>\<open>print\<close> it does not start the display first; the \<^verbatim>\<open>draw\<close> at its end does.
\<close>

definition print_json_str :: "LinesDisplay \<Rightarrow> string \<Rightarrow> bool \<Rightarrow> error + LinesDisplay" where
  "print_json_str d as_str flush =
     (let line_strs = splitlines as_str
      in case print_json_loop (int (length (content d))) flush ([], [], content d)
                (zip (map int [0..<length line_strs]) line_strs) of
           Inl e \<Rightarrow> Inl e
         | Inr (ls, stack, cont) \<Rightarrow> draw (d\<lparr>content := renumber (cont @ ls)\<rparr>))"

definition print_json :: "LinesDisplay \<Rightarrow> json_value \<Rightarrow> bool \<Rightarrow> error + LinesDisplay" where
  "print_json d obj flush = print_json_str d (json_dumps obj) flush"

section \<open>Navigation\<close>

text \<open>
  \<^verbatim>\<open>next((i for i in rows if cond(self.content[i])), default)\<close>: the first row of \<open>rows\<close>
  whose line satisfies the condition; reading a row outside the buffer raises.
\<close>

fun first_row :: "(Line \<Rightarrow> bool) \<Rightarrow> Line list \<Rightarrow> int list \<Rightarrow> error + int option" where
  "first_row cond ls [] = Inr None"
| "first_row cond ls (i # rows) =
     (case py_get ls i of
        Inl e \<Rightarrow> Inl e
      | Inr l \<Rightarrow> if cond l then Inr (Some i) else first_row cond ls rows)"

text \<open>\<^verbatim>\<open>self.content[i].json is None or not self.content[i].json.hidden\<close>.\<close>

definition shown :: "Line \<Rightarrow> bool" where
  "shown l = (case json l of None \<Rightarrow> True | Some a \<Rightarrow> hidden a = 0)"

text \<open>\<^verbatim>\<open>self.content[i].json and (self.content[i].json.key or
  self.content[i].json.collapsible())\<close>: the lines the cursor may rest on.\<close>

definition eligible :: "Line \<Rightarrow> bool" where
  "eligible l = (case json l of None \<Rightarrow> False | Some a \<Rightarrow> key a \<noteq> None \<or> collapsible a)"

text \<open>The same with \<^verbatim>\<open>and not self.content[i].json.hidden\<close>, as \<^verbatim>\<open>scroll_json_up\<close> and
  \<^verbatim>\<open>scroll_json_down\<close> have it.\<close>

definition eligible_shown :: "Line \<Rightarrow> bool" where
  "eligible_shown l =
     (case json l of None \<Rightarrow> False | Some a \<Rightarrow> (key a \<noteq> None \<or> collapsible a) \<and> hidden a = 0)"

text \<open>
  \<^verbatim>\<open>
  def scroll_screen_up(self, n=1):
      for _ in range(n):
          self.top_row = next((i for i in range(self.top_row-1, -1, -1) if (...)), self.top_row)

  def scroll_screen_down(self, n=1):
      for _ in range(n):
          self.top_row = next((i for i in range(self.top_row+1, len(self.content)) if (...)), self.top_row)
  \<close>
\<close>

fun scroll_screen_up :: "LinesDisplay \<Rightarrow> nat \<Rightarrow> error + LinesDisplay" where
  "scroll_screen_up d 0 = Inr d"
| "scroll_screen_up d (Suc n) =
     (case first_row shown (content d) (py_range_down (top_row d - 1)) of
        Inl e \<Rightarrow> Inl e
      | Inr found \<Rightarrow>
          scroll_screen_up (d\<lparr>top_row := (case found of None \<Rightarrow> top_row d | Some i \<Rightarrow> i)\<rparr>) n)"

fun scroll_screen_down :: "LinesDisplay \<Rightarrow> nat \<Rightarrow> error + LinesDisplay" where
  "scroll_screen_down d 0 = Inr d"
| "scroll_screen_down d (Suc n) =
     (case first_row shown (content d) (py_range (top_row d + 1) (int (length (content d)))) of
        Inl e \<Rightarrow> Inl e
      | Inr found \<Rightarrow>
          scroll_screen_down (d\<lparr>top_row := (case found of None \<Rightarrow> top_row d | Some i \<Rightarrow> i)\<rparr>) n)"

text \<open>
  \<^verbatim>\<open>
  def scroll_json_up(self):
      prev_row = next((i for i in range(self.cursor_row-1, -1, -1) if ...), None)
      if prev_row is not None:
          self.cursor_row = prev_row
      else:
          self.scroll_screen_up()
      if self.cursor_row < self.top_row:
          self.top_row = self.cursor_row
  \<close>
  With \<^verbatim>\<open>cursor_row\<close> being \<^verbatim>\<open>None\<close> the subtraction raises \<^verbatim>\<open>TypeError\<close>.
\<close>

definition scroll_json_up :: "LinesDisplay \<Rightarrow> error + LinesDisplay" where
  "scroll_json_up d =
     (case cursor_row d of
        None \<Rightarrow> Inl TypeError
      | Some c \<Rightarrow>
          (case first_row eligible_shown (content d) (py_range_down (c - 1)) of
             Inl e \<Rightarrow> Inl e
           | Inr prev_row \<Rightarrow>
               (case (case prev_row of
                        Some p \<Rightarrow> Inr (d\<lparr>cursor_row := Some p\<rparr>)
                      | None \<Rightarrow> scroll_screen_up d 1) of
                  Inl e \<Rightarrow> Inl e
                | Inr d1 \<Rightarrow>
                    (case cursor_row d1 of
                       None \<Rightarrow> Inl TypeError
                     | Some c1 \<Rightarrow>
                         Inr (if c1 < top_row d1 then d1\<lparr>top_row := c1\<rparr> else d1)))))"

text \<open>
  \<^verbatim>\<open>
  while self.cursor_row > self.bottom_row:
      self.scroll_screen_down()
      self.draw()  # lazy, but bottom_row gets set on draw cycle
  \<close>
  Nothing in the code bounds the number of rounds, so the loop is a partial function:
  \<^const>\<open>None\<close> is the loop that does not end.
\<close>

partial_function (option) catch_up :: "LinesDisplay \<Rightarrow> (error + LinesDisplay) option" where
  "catch_up d =
     (case cursor_row d of
        None \<Rightarrow> Some (Inl TypeError)
      | Some c \<Rightarrow>
          if c > bottom_row d then
            (case scroll_screen_down d 1 of
               Inl e \<Rightarrow> Some (Inl e)
             | Inr d1 \<Rightarrow>
                 (case draw d1 of
                    Inl e \<Rightarrow> Some (Inl e)
                  | Inr d2 \<Rightarrow> catch_up d2))
          else Some (Inr d))"

declare catch_up.simps [code]

text \<open>
  \<^verbatim>\<open>
  def scroll_json_down(self):
      next_row = next((i for i in range(self.cursor_row+1, len(self.content)) if ...), None)
      if next_row is not None:
          self.cursor_row = next_row
      else:
          self.scroll_screen_down()
      while self.cursor_row > self.bottom_row: ...
  \<close>
\<close>

definition scroll_json_down :: "LinesDisplay \<Rightarrow> (error + LinesDisplay) option" where
  "scroll_json_down d =
     (case cursor_row d of
        None \<Rightarrow> Some (Inl TypeError)
      | Some c \<Rightarrow>
          (case first_row eligible_shown (content d)
                  (py_range (c + 1) (int (length (content d)))) of
             Inl e \<Rightarrow> Some (Inl e)
           | Inr next_row \<Rightarrow>
               (case (case next_row of
                        Some p \<Rightarrow> Inr (d\<lparr>cursor_row := Some p\<rparr>)
                      | None \<Rightarrow> scroll_screen_down d 1) of
                  Inl e \<Rightarrow> Some (Inl e)
                | Inr d1 \<Rightarrow> catch_up d1)))"

text \<open>
  \<^verbatim>\<open>
  def set_footer(self, s: str, flush: bool = True):
      if hasattr(self, 'footer') and not flush:
          self.footer.s += s
      else:
          self.footer = Line(s, colors=[(0, 4)] if s else [])
  \<close>
  and \<^verbatim>\<open>set_footer_for_mode\<close>, which calls it with \<^verbatim>\<open>flush\<close> left at \<^verbatim>\<open>True\<close>.
\<close>

definition set_footer :: "LinesDisplay \<Rightarrow> string \<Rightarrow> bool \<Rightarrow> LinesDisplay" where
  "set_footer d str flush =
     (if \<not> flush then d\<lparr>footer := (footer d)\<lparr>s := s (footer d) @ str\<rparr>\<rparr>
      else d\<lparr>footer := Line_init str None (if str \<noteq> [] then [(0, 4)] else [])\<rparr>)"

definition set_footer_for_mode :: "LinesDisplay \<Rightarrow> LinesDisplay" where
  "set_footer_for_mode d =
     set_footer d
       (case mode d of
          JSON \<Rightarrow> ''Navigation mode: JSON, use left/right arrows to collapse/expand elements''
        | SCROLL \<Rightarrow> ''Navigation mode: SCROLL, use left/right arrows to page up and down'')
       True"

text \<open>
  \<^verbatim>\<open>
  def cycle_mode(self):
      if self.mode is LinesDisplay.Mode.SCROLL:
          if self.cursor_row == None or self.cursor_row < self.top_row or self.cursor_row > self.bottom_row:
              self.cursor_row = next((i for i in range(self.top_row, len(self.content))
                  if self.content[i].json and (self.content[i].json.key or self.content[i].json.collapsible())), None)
              if self.cursor_row == None:
                  return
          self.mode = LinesDisplay.Mode.JSON
      else:
          self.mode = LinesDisplay.Mode.SCROLL
      self.set_footer_for_mode()
      self.draw()
  \<close>
\<close>

definition cycle_mode :: "LinesDisplay \<Rightarrow> error + LinesDisplay" where
  "cycle_mode d =
     (if mode d = SCROLL then
        (if cursor_row d = None \<or> the (cursor_row d) < top_row d
              \<or> the (cursor_row d) > bottom_row d then
           (case first_row eligible (content d)
                   (py_range (top_row d) (int (length (content d)))) of
              Inl e \<Rightarrow> Inl e
            | Inr found \<Rightarrow>
                if found = None then Inr (d\<lparr>cursor_row := None\<rparr>)
                else draw (set_footer_for_mode (d\<lparr>cursor_row := found, mode := JSON\<rparr>)))
         else draw (set_footer_for_mode (d\<lparr>mode := JSON\<rparr>)))
      else draw (set_footer_for_mode (d\<lparr>mode := SCROLL\<rparr>)))"

text \<open>
  \<^verbatim>\<open>
  def set_collapsed(self, line_num: int, collapsed: bool):
      line = self.content[line_num]
      if not line.json or not line.json.collapsible():
          return
      if line.json.collapsed == collapsed:
          return
      line.json.collapsed = collapsed
      for x in range(line.row + 1, line.json.pair_idx+1):
          if self.content[x].json:
              self.content[x].json.hidden += -1 if collapsed else 1
      self.draw()
  \<close>
  The conditional expression binds weaker than the sign, so the statement adds
  \<^verbatim>\<open>(-1 if collapsed else 1)\<close>.
\<close>

fun adjust_hidden :: "Line list \<Rightarrow> int \<Rightarrow> int list \<Rightarrow> error + Line list" where
  "adjust_hidden ls delta [] = Inr ls"
| "adjust_hidden ls delta (x # xs) =
     (case py_index (length ls) x of
        None \<Rightarrow> Inl IndexError
      | Some k \<Rightarrow>
          adjust_hidden
            (case json (ls ! k) of
               None \<Rightarrow> ls
             | Some a \<Rightarrow> ls[k := (ls ! k)\<lparr>json := Some (a\<lparr>hidden := hidden a + delta\<rparr>)\<rparr>])
            delta xs)"

definition set_collapsed :: "LinesDisplay \<Rightarrow> int \<Rightarrow> bool \<Rightarrow> error + LinesDisplay" where
  "set_collapsed d line_num coll =
     (case py_index (length (content d)) line_num of
        None \<Rightarrow> Inl IndexError
      | Some k \<Rightarrow>
          (let line = content d ! k
           in case json line of
                None \<Rightarrow> Inr d
              | Some a \<Rightarrow>
                  if \<not> collapsible a then Inr d
                  else
                    (case entity a of
                       None \<Rightarrow> Inl AttributeError
                     | Some e \<Rightarrow>
                         if collapsed e = coll then Inr d
                         else
                           (case (row line, pair_idx e) of
                              (Some r, Some p) \<Rightarrow>
                                (case adjust_hidden
                                        ((content d)
                                           [k := line\<lparr>json := Some (a\<lparr>entity :=
                                                   Some (e\<lparr>collapsed := coll\<rparr>)\<rparr>)\<rparr>])
                                        (if coll then - 1 else 1)
                                        (py_range (r + 1) (p + 1)) of
                                   Inl e \<Rightarrow> Inl e
                                 | Inr ls \<Rightarrow> draw (d\<lparr>content := ls\<rparr>))
                            | _ \<Rightarrow> Inl TypeError))))"

section \<open>The browse loop: \<^verbatim>\<open>display_and_browse\<close>\<close>

text \<open>The keys the loop tells apart: the four arrows, the keys that end the loop (escape,
  \<^verbatim>\<open>q\<close>, enter), the space bar, and any other key.\<close>

datatype Key = KEY_UP | KEY_DOWN | KEY_LEFT | KEY_RIGHT | KEY_EXIT | KEY_SPACE | KEY_OTHER

text \<open>
  One round of \<^verbatim>\<open>while True\<close> for a key other than an exit key: \<^verbatim>\<open>self.draw()\<close>, then
  the branch of the key. \<^verbatim>\<open>page_size\<close> is 30, and \<^verbatim>\<open>width\<close> is the width of the screen.
  An exception leaves the loop, since only \<^verbatim>\<open>KeyboardInterrupt\<close> is caught.
\<close>

definition offset_or_collapse :: "LinesDisplay \<Rightarrow> bool \<Rightarrow> error + LinesDisplay" where
  "offset_or_collapse d left =
     (case cursor_row d of
        None \<Rightarrow> Inl TypeError
      | Some c \<Rightarrow>
          (case py_index (length (content d)) c of
             None \<Rightarrow> Inl IndexError
           | Some k \<Rightarrow>
               (let line = content d ! k
                in if (case json line of None \<Rightarrow> False | Some a \<Rightarrow> type a = STRING) then
                     Inr (d\<lparr>content := (content d)
                            [k := (if left then decrease_offset line
                                   else increase_offset line (width d))]\<rparr>)
                   else set_collapsed d c left)))"

definition browse_key :: "LinesDisplay \<Rightarrow> Key \<Rightarrow> (error + LinesDisplay) option" where
  "browse_key d0 k =
     (case draw d0 of
        Inl e \<Rightarrow> Some (Inl e)
      | Inr d \<Rightarrow>
          (case k of
             KEY_UP \<Rightarrow> Some (if mode d = JSON then scroll_json_up d else scroll_screen_up d 1)
           | KEY_DOWN \<Rightarrow> (if mode d = JSON then scroll_json_down d else Some (scroll_screen_down d 1))
           | KEY_LEFT \<Rightarrow>
               Some (if mode d = JSON then offset_or_collapse d True else scroll_screen_up d 30)
           | KEY_RIGHT \<Rightarrow>
               Some (if mode d = JSON then offset_or_collapse d False else scroll_screen_down d 30)
           | KEY_SPACE \<Rightarrow> Some (cycle_mode d)
           | _ \<Rightarrow> Some (Inr d)))"

text \<open>The rounds for a list of keys, none of them an exit key.\<close>

fun browse_keys :: "LinesDisplay \<Rightarrow> Key list \<Rightarrow> (error + LinesDisplay) option" where
  "browse_keys d [] = Some (Inr d)"
| "browse_keys d (k # ks) =
     (case browse_key d k of
        None \<Rightarrow> None
      | Some (Inl e) \<Rightarrow> Some (Inl e)
      | Some (Inr d') \<Rightarrow> browse_keys d' ks)"

text \<open>
  The start of \<^verbatim>\<open>display_and_browse\<close>: the display is started when it is not, the header
  is set, and the mode is \<^verbatim>\<open>SCROLL\<close> with its footer.
\<close>

definition browse_begin :: "LinesDisplay \<Rightarrow> LinesDisplay" where
  "browse_begin d0 =
     (let d = (if started d0 then d0 else start d0)
      in set_footer_for_mode
           (d\<lparr>header := Line_init ''ENTER or ESC to return to menu, SPACE to swap modes'' None [(0, 4)],
              mode := SCROLL\<rparr>))"

text \<open>A display that printed one line and was stopped, and the same display still started.\<close>

definition stopped_display :: LinesDisplay where
  "stopped_display =
     (case print (LinesDisplay_init 24 80) ''a'' True of
        Inr d \<Rightarrow> stop d
      | Inl e \<Rightarrow> LinesDisplay_init 24 80)"

definition started_display :: LinesDisplay where
  "started_display =
     (case print (LinesDisplay_init 24 80) ''a'' True of
        Inr d \<Rightarrow> d
      | Inl e \<Rightarrow> LinesDisplay_init 24 80)"

section \<open>Auxiliary definitions for the statements\<close>

text \<open>\<^verbatim>\<open>hidden\<close> of a line raised by \<open>delta\<close> when the line has an annotation, and the number
  of rows of a list that denote the position \<open>k\<close> of a buffer of length \<open>len\<close>.\<close>

definition bump :: "int \<Rightarrow> Line \<Rightarrow> Line" where
  "bump delta l =
     (case json l of None \<Rightarrow> l | Some a \<Rightarrow> l\<lparr>json := Some (a\<lparr>hidden := hidden a + delta\<rparr>)\<rparr>)"

definition hits :: "nat \<Rightarrow> int list \<Rightarrow> nat \<Rightarrow> int" where
  "hits len xs k = int (length [x \<leftarrow> xs. py_index len x = Some k])"

text \<open>One call after another, stopping at the first exception.\<close>

definition and_then :: "error + 'a \<Rightarrow> ('a \<Rightarrow> error + 'b) \<Rightarrow> error + 'b" where
  "and_then m f = (case m of Inl e \<Rightarrow> Inl e | Inr x \<Rightarrow> f x)"

text \<open>What the statements read from the lines of the buffer: text, row, kind and
  \<^verbatim>\<open>pair_idx\<close>; the \<^verbatim>\<open>child_count\<close>; the \<^verbatim>\<open>hidden\<close> counters.\<close>

definition pair_of :: "Line \<Rightarrow> int option" where
  "pair_of l = (case json l of None \<Rightarrow> None | Some a \<Rightarrow> (case entity a of None \<Rightarrow> None | Some e \<Rightarrow> pair_idx e))"

definition count_of :: "Line \<Rightarrow> int option" where
  "count_of l = (case json l of None \<Rightarrow> None | Some a \<Rightarrow> map_option child_count (entity a))"

definition rows_view :: "LinesDisplay \<Rightarrow> (string \<times> int option \<times> JsonType option \<times> int option) list" where
  "rows_view d = map (\<lambda>l. (s l, row l, map_option type (json l), pair_of l)) (content d)"

definition hidden_view :: "LinesDisplay \<Rightarrow> int option list" where
  "hidden_view d = map (\<lambda>l. map_option hidden (json l)) (content d)"

text \<open>A started display on a terminal of 24 rows and 80 columns; the display after
  \<^verbatim>\<open>print_json({"a": 1, "b": [1, 2, 3]})\<close>, the example of the specification; and that
  display after \<^verbatim>\<open>set_collapsed(2, True)\<close> on the line of \<^verbatim>\<open>"b"\<close>.\<close>

definition terminal :: LinesDisplay where
  "terminal = start (LinesDisplay_init 24 80)"

definition scenario_display :: LinesDisplay where
  "scenario_display =
     (case print_json terminal (JDict [(''a'', JInt 1), (''b'', JList [JInt 1, JInt 2, JInt 3])]) True of
        Inr d \<Rightarrow> d | Inl e \<Rightarrow> terminal)"

definition scenario_collapsed :: LinesDisplay where
  "scenario_collapsed =
     (case set_collapsed scenario_display 2 True of Inr d \<Rightarrow> d | Inl e \<Rightarrow> terminal)"

section \<open>Verified properties\<close>

subsection \<open>Span insertion\<close>

lemma last_insort_key_le:
  "ys \<noteq> [] \<Longrightarrow> f x \<le> f (last ys) \<Longrightarrow> last (insort_key f x ys) = last ys"
  by (induction ys) auto

lemma sort_key_snoc_ne: "sort_key f (xs @ [a]) \<noteq> []"
  by (simp add: length_0_conv [symmetric] del: length_0_conv)

lemma last_sort_key_snoc:
  "\<forall>x\<in>set xs. f x \<le> f a \<Longrightarrow> last (sort_key f (xs @ [a])) = a"
proof (induction xs)
  case Nil
  then show ?case by simp
next
  case (Cons x xs)
  then have ih: "last (sort_key f (xs @ [a])) = a" by simp
  have "f x \<le> f a" using Cons.prems by simp
  then show ?case using ih sort_key_snoc_ne [of f xs a] by (simp add: last_insort_key_le)
qed

lemma add_color_span_eq:
  "add_color_span cs c st w =
     (if [x \<leftarrow> cs. fst x \<le> st + w] = [] then span_tail ((0, 1) # cs) 1 c st w
      else span_tail cs (color_at cs (st + w)) c st w)"
  by (simp add: add_color_span_def color_at_def split: list.splits)

lemma set_span_tail:
  "set (span_tail cs p c st w) = {x \<in> set cs. fst x \<noteq> st} \<union> {(st, c), (st + w, p)}"
  unfolding span_tail_def by auto

lemma color_at_last:
  "[c \<leftarrow> cs. fst c \<le> x] = ys \<Longrightarrow> ys \<noteq> [] \<Longrightarrow> color_at cs x = snd (last ys)"
  by (cases ys) (simp_all add: color_at_def last_map)

lemma color_at_none:
  "[c \<leftarrow> cs. fst c \<le> x] = [] \<Longrightarrow> color_at cs x = 1"
  by (simp add: color_at_def)

lemma color_at_span_tail_end:
  "color_at (span_tail cs p c st w) (st + w) = p"
proof -
  define Y where "Y = filter (\<lambda>x::Color. fst x \<le> st + w) ([x \<leftarrow> cs. fst x \<noteq> st] @ [(st, c)])"
  have 1: "filter (\<lambda>x. fst x \<le> st + w) (span_tail cs p c st w) = sort_key fst (Y @ [(st + w, p)])"
    by (simp add: span_tail_def filter_sort Y_def)
  have 2: "last (sort_key fst (Y @ [(st + w, p)])) = (st + w, p)"
    by (rule last_sort_key_snoc) (simp add: Y_def)
  have 3: "sort_key fst (Y @ [(st + w, p)]) \<noteq> []"
    by (rule sort_key_snoc_ne)
  show ?thesis
    using color_at_last [OF 1 3] by (simp only: 2 snd_conv)
qed

lemma filter_span_tail_ne:
  "[x \<leftarrow> span_tail cs p c st w. fst x \<le> st + w] \<noteq> []"
proof -
  have "(st + w, p) \<in> set [x \<leftarrow> span_tail cs p c st w. fst x \<le> st + w]"
    by (simp add: set_span_tail)
  then show ?thesis by (metis empty_iff empty_set)
qed

lemma add_color_span_twice:
  "add_color_span (span_tail cs p c st w) c st w = span_tail (span_tail cs p c st w) p c st w"
  by (simp add: add_color_span_eq filter_span_tail_ne color_at_span_tail_end)

lemma set_span_tail_twice:
  "set (span_tail (span_tail cs p c st w) p c st w) = set (span_tail cs p c st w)"
  unfolding set_span_tail by blast

text \<open>
  Claim C4. Inserting the same span twice gives the same set of breakpoints as inserting
  it once, for every breakpoint list, style, start and width. \<^const>\<open>add_color_span\<close> is a
  function of the breakpoint list and the three integers alone. (The list returned the
  second time holds the resumed breakpoint at \<open>st + w\<close> once more than the
  first; the set of breakpoints is the same.)
\<close>

theorem add_color_span_idempotent:
  "set (add_color_span (add_color_span cs c st w) c st w)
     = set (add_color_span cs c st w)"
proof (cases "[x \<leftarrow> cs. fst x \<le> st + w] = []")
  case True
  then have "add_color_span cs c st w = span_tail ((0, 1) # cs) 1 c st w"
    by (simp add: add_color_span_eq)
  then show ?thesis by (simp only: add_color_span_twice set_span_tail_twice)
next
  case False
  then have "add_color_span cs c st w
               = span_tail cs (color_at cs (st + w)) c st w"
    by (simp add: add_color_span_eq)
  then show ?thesis by (simp only: add_color_span_twice set_span_tail_twice)
qed

text \<open>The lists themselves differ: the second insertion repeats the resumed breakpoint.\<close>

lemma add_color_span_twice_list:
  "add_color_span [] 2 0 5 = [(0, 2), (5, 1)] \<and>
   add_color_span (add_color_span [] 2 0 5) 2 0 5 = [(0, 2), (5, 1), (5, 1)]"
  by (simp add: add_color_span_def span_tail_def)

subsection \<open>Horizontal offset\<close>

lemma increase_keeps: "json (increase_offset l W) = json l" "s (increase_offset l W) = s l"
  by (simp_all add: increase_offset_def split: option.splits)

lemma increase_offset_Some:
  "json l \<noteq> None \<Longrightarrow>
     offset (increase_offset l W) = min (max 0 (int (length (s l)) - W + 3)) (offset l + 10)"
  by (auto simp: increase_offset_def)

lemma increase_iter_keeps:
  "json (((\<lambda>x. increase_offset x W) ^^ n) l) = json l \<and> s (((\<lambda>x. increase_offset x W) ^^ n) l) = s l"
  by (induction n) (simp_all add: increase_keeps)

lemma increase_iter_offset:
  assumes "json l \<noteq> None" and "offset l = 0"
  shows "offset (((\<lambda>x. increase_offset x W) ^^ n) l)
           = min (max 0 (int (length (s l)) - W + 3)) (10 * int n)"
proof (induction n)
  case 0
  then show ?case using assms by simp
next
  case (Suc n)
  let ?l = "((\<lambda>x. increase_offset x W) ^^ n) l"
  have j: "json ?l \<noteq> None" and t: "s ?l = s l" using assms increase_iter_keeps [where W=W and n=n and l=l] by simp_all
  have "offset (increase_offset ?l W) = min (max 0 (int (length (s l)) - W + 3)) (offset ?l + 10)"
    using increase_offset_Some [OF j, of W] by (simp only: t)
  then show ?case using Suc by (simp add: min_def max_def)
qed

lemma decrease_iter_offset:
  "offset ((decrease_offset ^^ m) l) = max 0 (offset l - 10 * int m)" if "0 \<le> offset l"
  using that
proof (induction m)
  case 0
  then show ?case by simp
next
  case (Suc m)
  then show ?case by (simp add: decrease_offset_def)
qed

text \<open>
  Claim C7, amended. On an annotated line with offset 0 in a viewport of width \<open>W\<close>,
  \<open>n\<close> calls of \<^const>\<open>increase_offset\<close> followed by \<open>m\<close> calls of \<^const>\<open>decrease_offset\<close> leave
  the offset at \<open>max 0 (min cap (10 n) - 10 m)\<close>, where the cap is
  \<open>max 0 (S - W + 3)\<close> and \<open>S\<close> is the length of the text of the line: the offset grows in
  steps of 10 up to the cap and stays there, shrinks in steps of 10 and never goes below 0.
\<close>

theorem offset_steps:
  assumes "json l \<noteq> None" and "offset l = 0"
  shows "offset ((decrease_offset ^^ m) (((\<lambda>x. increase_offset x W) ^^ n) l))
           = max 0 (min (max 0 (int (length (s l)) - W + 3)) (10 * int n) - 10 * int m)"
proof -
  have "0 \<le> offset (((\<lambda>x. increase_offset x W) ^^ n) l)"
    using increase_iter_offset [OF assms, where W=W and n=n] by simp
  then show ?thesis
    using decrease_iter_offset [where l="((\<lambda>x. increase_offset x W) ^^ n) l" and m=m] increase_iter_offset [OF assms, where W=W and n=n]
    by simp
qed

theorem offset_steps_witness:
  "json long_string_line \<noteq> None \<and> offset long_string_line = 0 \<and>
   offset ((decrease_offset ^^ 1) (((\<lambda>x. increase_offset x 80) ^^ 3) long_string_line)) = 13"
proof -
  have j: "json long_string_line \<noteq> None" and o: "offset long_string_line = 0"
    by (simp_all add: long_string_line_def Line_init_def)
  have "s long_string_line = replicate 100 CHR ''x''" by (simp add: long_string_line_def Line_init_def)
  then show ?thesis using j o offset_steps [OF j o, where m=1 and W=80 and n=3] by simp
qed

text \<open>
  The cap is not \<open>S - W + 3\<close> itself: on a line of 4 characters in a viewport of width 80
  the offset stays 0, above \<open>S - W + 3 = -73\<close>.
\<close>

theorem increase_offset_cap_counterexample:
  "offset (increase_offset short_string_line 80) = 0 \<and>
   \<not> offset (increase_offset short_string_line 80) \<le> int (length (s short_string_line)) - 80 + 3"
  by (simp add: increase_offset_def short_string_line_def Line_init_def)

subsection \<open>Drawing a line leaves it unchanged\<close>

lemma frame_refl: "frame h h" by (simp add: frame_def)

lemma frame_trans: "frame h1 h2 \<Longrightarrow> frame h2 h3 \<Longrightarrow> frame h1 h3"
  by (auto simp: frame_def)

lemma alloc_frame:
  "alloc h xs = (h', r) \<Longrightarrow> frame h h' \<and> r = length h \<and> length h' = Suc (length h) \<and> h' ! r = xs"
  by (auto simp: alloc_def frame_def nth_append)

lemma frame_update_fresh: "length h \<le> r \<Longrightarrow> frame h h1 \<Longrightarrow> frame h (h1[r := xs])"
  by (auto simp: frame_def)

lemma add_color_span_h_frame:
  assumes "add_color_span_h h r c st w = (h', r')"
  shows "frame h h' \<and> length h \<le> r' \<and> r' < length h'"
proof -
  obtain h1 r1 p where 1: "(case map snd [c \<leftarrow> h ! r. fst c \<le> st + w] of
               [] \<Rightarrow> (let (h', r') = alloc h ((0, 1) # h ! r) in (h', r', 1))
             | p # ps \<Rightarrow> (h, r, last (p # ps))) = (h1, r1, p)"
    by (metis prod_cases3)
  have f1: "frame h h1"
    using 1 by (auto simp: frame_refl split: list.splits prod.splits dest: alloc_frame)
  obtain h2 r2 where 2: "alloc h1 [x \<leftarrow> h1 ! r1. fst x \<noteq> st] = (h2, r2)" by force
  define h3 where "h3 = h2[r2 := h2 ! r2 @ [(st, c), (st + w, p)]]"
  have f2: "frame h1 h2" and r2: "r2 = length h1" and l2: "length h2 = Suc (length h1)"
    using alloc_frame [OF 2] by simp_all
  have f3: "frame h1 h3" unfolding h3_def using f2 r2 by (simp add: frame_update_fresh)
  have l3: "length h3 = length h2" by (simp add: h3_def)
  have res: "alloc h3 (sort_key fst (h3 ! r2)) = (h', r')"
    using assms unfolding add_color_span_h_def 1 by (simp add: 2 h3_def Let_def)
  have f4: "frame h3 h'" and r4: "r' = length h3" and l4: "length h' = Suc (length h3)"
    using alloc_frame [OF res] by simp_all
  have "frame h h'" using f1 f3 f4 frame_trans by blast
  moreover have "length h \<le> r'" using f1 f3 r4 by (simp add: frame_def)
  moreover have "r' < length h'" using r4 l4 by simp
  ultimately show ?thesis by simp
qed

lemma local_okI: "frame h0 h \<Longrightarrow> r < length h \<Longrightarrow> local_ok h0 (h, r, tx)"
  by (simp add: local_ok_def)

lemma span_ok:
  assumes "local_ok h0 (h, r, tx)" and "add_color_span_h h r c st w = (h', r')"
  shows "local_ok h0 (h', r', tx')" and "length h0 \<le> r'"
proof -
  have f: "frame h h'" and a: "length h \<le> r'" and b: "r' < length h'"
    using add_color_span_h_frame [OF assms(2)] by simp_all
  have f0: "frame h0 h" using assms(1) by (simp add: local_ok_def)
  show "local_ok h0 (h', r', tx')" using frame_trans [OF f0 f] b by (simp add: local_ok_def)
  show "length h0 \<le> r'" using f0 a by (simp add: frame_def)
qed

lemma draw_init_ok: "r < length h \<Longrightarrow> local_ok h (draw_init h r l)"
  by (auto simp: draw_init_def local_ok_def frame_refl split: prod.splits dest: alloc_frame)

lemma span_ok_ex:
  assumes "local_ok h0 (h, r, tx)"
    and "\<exists>c st w h1 r1 t1. add_color_span_h h r c st w = (h1, r1) \<and> res = (h1, r1, t1)"
  shows "local_ok h0 res"
  using assms span_ok(1) by blast

lemma draw_container_ok:
  assumes "local_ok h0 st" and "draw_container l st = Inr st'"
  shows "local_ok h0 st'"
proof -
  obtain h r tx where st: "st = (h, r, tx)" by (cases st) auto
  have ok: "local_ok h0 (h, r, tx)" using assms(1) st by simp
  show ?thesis
  proof (cases "json l")
    case None
    then show ?thesis using assms by (simp add: draw_container_def st)
  next
    case (Some a)
    show ?thesis
    proof (cases "type a = ARR_START \<or> type a = OBJ_START")
      case False
      then show ?thesis using assms Some by (simp add: draw_container_def st)
    next
      case True
      then obtain e where e: "entity a = Some e"
        using assms(2) Some by (cases "entity a") (simp_all add: draw_container_def st)
      show ?thesis
      proof (cases "collapsed e")
        case c: True
        have "\<exists>c1 s1 w1 h1 r1 c2 s2 w2 h2 r2 t2.
                add_color_span_h h r c1 s1 w1 = (h1, r1) \<and>
                add_color_span_h h1 r1 c2 s2 w2 = (h2, r2) \<and> st' = (h2, r2, t2)"
          using assms(2) Some True e c
          by (simp add: draw_container_def st Let_def split: prod.splits) blast
        then obtain c1 s1 w1 h1 r1 c2 s2 w2 h2 r2 t2 where
          1: "add_color_span_h h r c1 s1 w1 = (h1, r1)" and
          2: "add_color_span_h h1 r1 c2 s2 w2 = (h2, r2)" and 3: "st' = (h2, r2, t2)"
          by blast
        have "local_ok h0 (h1, r1, tx)" using span_ok(1) [OF ok 1] .
        then show ?thesis unfolding 3 using span_ok(1) [OF _ 2] by blast
      next
        case c: False
        show ?thesis
        proof (cases "type a = ARR_START")
          case t: True
          have "\<exists>c1 s1 w1 h1 r1 t1. add_color_span_h h r c1 s1 w1 = (h1, r1) \<and> st' = (h1, r1, t1)"
            using assms(2) Some True e c t
            by (simp add: draw_container_def st Let_def split: prod.splits) blast
          then show ?thesis using span_ok_ex [OF ok] by blast
        next
          case t: False
          then show ?thesis using assms Some True e c by (simp add: draw_container_def st)
        qed
      qed
    qed
  qed
qed

lemma draw_elide_ok:
  assumes "local_ok h0 st"
  shows "local_ok h0 (draw_elide l st)"
proof -
  obtain h r tx where st: "st = (h, r, tx)" by (cases st) auto
  have ok: "local_ok h0 (h, r, tx)" using assms(1) st by simp
  show ?thesis
  proof (cases "\<exists>a. json l = Some a \<and> type a = STRING \<and> offset l \<noteq> 0")
    case False
    then show ?thesis using assms by (auto simp: draw_elide_def st split: option.splits)
  next
    case True
    then obtain a where a: "json l = Some a" "type a = STRING" "offset l \<noteq> 0" by blast
    have "\<exists>c1 s1 w1 h1 r1 xs t1. add_color_span_h h r c1 s1 w1 = (h1, r1) \<and>
            draw_elide l st = (h1[r1 := xs], r1, t1)"
      using a by (simp add: draw_elide_def st Let_def split: prod.splits) blast
    then obtain c1 s1 w1 h1 r1 xs t1 where 1: "add_color_span_h h r c1 s1 w1 = (h1, r1)"
      and res: "draw_elide l st = (h1[r1 := xs], r1, t1)" by blast
    have ok1: "local_ok h0 (h1, r1, tx)" and fresh: "length h0 \<le> r1"
      using span_ok [OF ok 1] by blast+
    have "local_ok h0 (h1[r1 := xs], r1, t1)"
      using ok1 fresh by (simp add: local_ok_def frame_update_fresh)
    then show ?thesis by (simp add: res)
  qed
qed

lemma draw_truncate_ok:
  assumes "local_ok h0 st"
  shows "local_ok h0 (draw_truncate w st)"
proof -
  obtain h r tx where st: "st = (h, r, tx)" by (cases st) auto
  have ok: "local_ok h0 (h, r, tx)" using assms(1) st by simp
  show ?thesis
  proof (cases "int (length tx) > w")
    case False
    then show ?thesis using assms by (simp add: draw_truncate_def st)
  next
    case True
    have "\<exists>c1 s1 w1 h1 r1 t1. add_color_span_h h r c1 s1 w1 = (h1, r1) \<and>
            draw_truncate w st = (h1, r1, t1)"
      using True by (simp add: draw_truncate_def st Let_def split: prod.splits) blast
    then show ?thesis using span_ok_ex [OF ok] by blast
  qed
qed

lemma draw_pad_ok: "local_ok h0 st \<Longrightarrow> local_ok h0 (draw_pad w st)"
  by (cases st) (simp add: local_ok_def draw_pad_def)

lemma draw_cursor_ok:
  assumes "local_ok h0 st"
  shows "local_ok h0 (draw_cursor cur st)"
proof -
  obtain h r tx where st: "st = (h, r, tx)" by (cases st) auto
  show ?thesis
  proof (cases cur)
    case None
    then show ?thesis using assms by (simp add: draw_cursor_def st)
  next
    case (Some sp)
    obtain a b where sp: "sp = (a, b)" by (cases sp) auto
    obtain h1 r1 where 1: "add_color_span_h h r 2 a (b - a) = (h1, r1)" by force
    have "draw_cursor cur st = (h1, r1, tx)" using 1 by (simp add: draw_cursor_def st Some sp)
    moreover have "local_ok h0 (h1, r1, tx)" using span_ok(1) [OF _ 1] assms st by blast
    ultimately show ?thesis by simp
  qed
qed

lemma draw_h_frame:
  assumes "r < length h"
  shows "frame h (fst (draw_h h r l y w cur))"
proof (cases "draw_container l (draw_init h r l)")
  case (Inl e)
  then show ?thesis
    using draw_init_ok [OF assms, of l] by (cases "draw_init h r l") (simp add: draw_h_def local_ok_def)
next
  case (Inr st1)
  then have "local_ok h st1" using draw_init_ok [OF assms] draw_container_ok by blast
  then have ok: "local_ok h (draw_cursor cur (draw_pad w (draw_truncate w (draw_elide l st1))))"
    by (simp add: draw_elide_ok draw_truncate_ok draw_pad_ok draw_cursor_ok)
  obtain h5 r5 t5 where 5: "draw_cursor cur (draw_pad w (draw_truncate w (draw_elide l st1))) = (h5, r5, t5)"
    by (metis prod_cases3)
  show ?thesis using ok by (simp add: draw_h_def Inr 5 local_ok_def)
qed

lemma add_color_span_h_value:
  assumes "r < length h" and "add_color_span_h h r c st w = (h', r')"
  shows "h' ! r' = add_color_span (h ! r) c st w"
proof (cases "map snd [c \<leftarrow> h ! r. fst c \<le> st + w]")
  case Nil
  then show ?thesis
    using assms
    by (auto simp: add_color_span_h_def add_color_span_def alloc_def Let_def nth_append span_tail_def)
next
  case (Cons p ps)
  then show ?thesis
    using assms
    by (auto simp: add_color_span_h_def add_color_span_def alloc_def Let_def nth_append span_tail_def
        simp del: last.simps)
qed

text \<open>
  Claim C8. \<^verbatim>\<open>Line.draw\<close> never mutates the line it draws. For every store, line,
  geometry, cursor span, collapse state and offset, the list object \<^verbatim>\<open>self.colors\<close> (at
  address \<open>r\<close>) holds after the call what it held before, and so does every other list
  that existed before the call: the summary, the running count, the elision, the truncation
  and the cursor overlay are written to lists allocated during the call. The text, the
  annotation and the offset of the line are only read: the method has no assignment to an
  attribute, and strings and tuples are immutable.
\<close>

theorem draw_never_mutates:
  "r < length h \<Longrightarrow>
     fst (draw_h h r l y w cursor_span) ! r = h ! r
     \<and> (\<forall>a<length h. fst (draw_h h r l y w cursor_span) ! a = h ! a)"
  using draw_h_frame [of r h l y w cursor_span] by (simp add: frame_def)

theorem draw_never_mutates_witness:
  "0 < length demo_heap \<and>
   fst (draw_h demo_heap 0 demo_array_line 3 40 (Some (4, 7))) ! 0 = demo_heap ! 0"
  using draw_never_mutates [of 0 demo_heap demo_array_line 3 40 "Some (4, 7)"]
  by (simp add: demo_heap_def)

subsection \<open>Plain text appended without flushing\<close>

lemma draw_started:
  "started d \<Longrightarrow> draw d = Inr d' \<Longrightarrow> d' = d\<lparr>bottom_row := bottom_row d'\<rparr>"
  by (auto simp: draw_def Let_def split: sum.splits)

lemma draw_content: "started d \<Longrightarrow> draw d = Inr d' \<Longrightarrow> content d' = content d"
  by (auto simp: draw_def Let_def split: sum.splits)

lemma draw_ignores_bottom_row: "draw (d\<lparr>bottom_row := b\<rparr>) = draw d"
  by (simp add: draw_def Let_def start_def split: sum.splits)

text \<open>
  Claim C10, amended. On a started display whose buffer is not empty, \<^verbatim>\<open>print(s,
  flush=False)\<close> with a text of at least one line replaces the last line of the buffer by a
  new line whose text is the old text followed by the first new line, with no colours, no
  annotation, no row and offset 0; the other new lines follow, and the buffer is then drawn.
\<close>

theorem print_merges_tail:
  assumes "started d" and "content d \<noteq> []" and "splitlines str \<noteq> []"
  shows "print d str False =
           draw (d\<lparr>content := butlast (content d)
                     @ [\<lparr>s = s (last (content d)) @ hd (splitlines str), colors = [], json = None,
                         row = None, offset = 0\<rparr>]
                     @ map (\<lambda>x. Line_init x None []) (tl (splitlines str))\<rparr>)
         \<and> (\<forall>d'. print d str False = Inr d' \<longrightarrow>
               content d' = butlast (content d)
                     @ [\<lparr>s = s (last (content d)) @ hd (splitlines str), colors = [], json = None,
                         row = None, offset = 0\<rparr>]
                     @ map (\<lambda>x. Line_init x None []) (tl (splitlines str)))"
proof -
  let ?C = "butlast (content d)
                     @ [\<lparr>s = s (last (content d)) @ hd (splitlines str), colors = [], json = None,
                         row = None, offset = 0\<rparr>]
                     @ map (\<lambda>x. Line_init x None []) (tl (splitlines str))"
  have 1: "print d str False = draw (d\<lparr>content := ?C\<rparr>)"
    using assms by (simp add: print_def Let_def Line_init_def hd_map map_tl)
  have "content d' = ?C" if "print d str False = Inr d'" for d'
    using that assms(1) draw_content [of "d\<lparr>content := ?C\<rparr>" d'] unfolding 1 by simp
  then show ?thesis using 1 by blast
qed

lemma splitlines_a: "splitlines ''a'' = [''a'']" "splitlines ''b'' = [''b'']"
  by (simp_all add: splitlines_def is_linebreak_def)

lemma started_display_eq:
  "started_display = (LinesDisplay_init 24 80)\<lparr>started := True, content := [Line_init ''a'' None []]\<rparr>"
  by code_simp

theorem print_merges_tail_witness:
  "started started_display \<and> content started_display \<noteq> [] \<and> splitlines ''b'' \<noteq> [] \<and>
   map_sum id content (print started_display ''b'' False)
     = Inr [\<lparr>s = ''ab'', colors = [], json = None, row = None, offset = 0\<rparr>]"
proof -
  have a: "started started_display" and b: "content started_display \<noteq> []"
    and c: "splitlines ''b'' \<noteq> []"
    by (simp_all add: started_display_eq splitlines_a)
  have e: "map_sum id content
             (draw (started_display\<lparr>content :=
                [\<lparr>s = ''ab'', colors = [], json = None, row = None, offset = 0\<rparr>]\<rparr>))
           = Inr [\<lparr>s = ''ab'', colors = [], json = None, row = None, offset = 0\<rparr>]"
    by code_simp
  have "print started_display ''b'' False
          = draw (started_display\<lparr>content :=
                [\<lparr>s = ''ab'', colors = [], json = None, row = None, offset = 0\<rparr>]\<rparr>)"
    using print_merges_tail [OF a b c]
    by (simp add: started_display_eq splitlines_a Line_init_def)
  then show ?thesis using a b c e by simp
qed

text \<open>
  On a display that was stopped the buffer is not empty, yet \<^verbatim>\<open>print\<close> starts the
  display first, which empties the buffer: nothing is merged.
\<close>

theorem print_stopped_counterexample:
  "\<not> started stopped_display \<and> map s (content stopped_display) = [''a''] \<and>
   splitlines ''b'' \<noteq> [] \<and>
   map_sum id (\<lambda>d. map s (content d)) (print stopped_display ''b'' False) = Inr [''b'']"
  by code_simp

subsection \<open>Degenerate spans\<close>

lemma add_color_span_exc_total:
  "add_color_span_exc cs c st w = Inr (add_color_span cs c st w)"
  by (simp add: add_color_span_exc_def add_color_span_def py_last_def split: list.splits)

lemma last_insort_key_sorted:
  "sorted (map f ys) \<Longrightarrow>
     last (insort_key f x ys) = (if ys \<noteq> [] \<and> f x \<le> f (last ys) then last ys else x)"
proof (induction ys)
  case Nil
  then show ?case by simp
next
  case (Cons y ys)
  show ?case
  proof (cases "ys = []")
    case True
    then show ?thesis by simp
  next
    case False
    then have yl: "f y \<le> f (last ys)" using Cons.prems by simp
    have ih: "last (insort_key f x ys) = (if f x \<le> f (last ys) then last ys else x)"
      using Cons False by simp
    show ?thesis
    proof (cases "f x \<le> f y")
      case True
      then have "f x \<le> f (last ys)" using yl by (rule order_trans)
      then show ?thesis using True False by simp
    next
      case nle: False
      then show ?thesis using ih False by (simp add: insort_not_Nil)
    qed
  qed
qed

lemma sort_key_Nil_iff: "sort_key f xs = [] \<longleftrightarrow> xs = []"
  by (metis length_0_conv length_sort)

lemma last_sort_key_mem: "xs \<noteq> [] \<Longrightarrow> last (sort_key f xs) \<in> set xs"
  by (metis last_in_set length_0_conv length_sort set_sort)

lemma last_sort_key_snoc_if:
  "last (sort_key f (xs @ [a]))
     = (if \<forall>x\<in>set xs. f x \<le> f a then a else last (sort_key f xs))"
proof (induction xs)
  case Nil
  then show ?case by simp
next
  case (Cons x xs)
  let ?S = "sort_key f (xs @ [a])"
  have ne: "?S \<noteq> []" by (simp add: length_0_conv [symmetric] del: length_0_conv)
  have step: "last (sort_key f ((x # xs) @ [a])) = (if f x \<le> f (last ?S) then last ?S else x)"
    using ne by (simp add: last_insort_key_sorted)
  have step2: "last (sort_key f (x # xs))
                 = (if xs \<noteq> [] \<and> f x \<le> f (last (sort_key f xs)) then last (sort_key f xs) else x)"
    by (simp add: last_insort_key_sorted sort_key_Nil_iff)
  show ?case
  proof (cases "\<forall>y\<in>set xs. f y \<le> f a")
    case True
    then have S: "last ?S = a" using Cons.IH by simp
    show ?thesis
    proof (cases "f x \<le> f a")
      case le: True
      then show ?thesis using True S step by simp
    next
      case gt: False
      have "last (sort_key f (x # xs)) = x"
      proof (cases "xs = []")
        case True
        then show ?thesis by simp
      next
        case False
        then have "f (last (sort_key f xs)) \<le> f a" using True last_sort_key_mem by blast
        then show ?thesis using gt step2 by auto
      qed
      then show ?thesis using gt S step by simp
    qed
  next
    case False
    then have S: "last ?S = last (sort_key f xs)" and "xs \<noteq> []" using Cons.IH by auto
    then show ?thesis using False step step2 by auto
  qed
qed

lemma sorted_last_max:
  "sorted (map f xs) \<Longrightarrow> y \<in> set xs \<Longrightarrow> f y \<le> f (last xs)"
  by (induction xs) (auto split: if_splits)

lemma last_filter_keep: "xs \<noteq> [] \<Longrightarrow> P (last xs) \<Longrightarrow> last (filter P xs) = last xs"
proof (induction xs)
  case Nil
  then show ?case by simp
next
  case (Cons a xs)
  show ?case
  proof (cases "xs = []")
    case True
    then show ?thesis using Cons.prems by simp
  next
    case False
    then have "P (last xs)" using Cons.prems by simp
    then have "filter P xs \<noteq> []" using False by (metis filter_empty_conv last_in_set)
    then show ?thesis using Cons False by simp
  qed
qed

lemma filter_span_tail:
  "[y \<leftarrow> span_tail cs p c st w. fst y \<le> x]
     = sort_key fst ([y \<leftarrow> cs. fst y \<noteq> st \<and> fst y \<le> x]
                      @ [y \<leftarrow> [(st, c), (st + w, p)]. fst y \<le> x])"
  by (simp add: span_tail_def filter_sort del: filter.simps)

lemma sorted_filter_id:
  "sorted (map fst cs) \<Longrightarrow> sort_key fst (filter P cs) = filter P cs"
  by (simp add: sort_key_id_if_sorted sorted_filter)

lemma color_at_cong:
  "[y \<leftarrow> cs. fst y \<le> x] = [y \<leftarrow> cs'. fst y \<le> x'] \<Longrightarrow> color_at cs x = color_at cs' x'"
  by (simp add: color_at_def)

lemma color_at_before_span:
  assumes srt: "sorted (map fst cs)" and w: "0 \<le> w" and x: "x < st"
  shows "color_at (add_color_span cs c st w) x = color_at cs x"
proof (cases "[y \<leftarrow> cs. fst y \<le> st + w] = []")
  case False
  have r: "add_color_span cs c st w = span_tail cs (color_at cs (st + w)) c st w"
    using False by (simp add: add_color_span_eq)
  have "[y \<leftarrow> span_tail cs (color_at cs (st + w)) c st w. fst y \<le> x]
          = sort_key fst [y \<leftarrow> cs. fst y \<noteq> st \<and> fst y \<le> x]"
    using w x by (simp add: filter_span_tail)
  also have "\<dots> = [y \<leftarrow> cs. fst y \<noteq> st \<and> fst y \<le> x]"
    using srt by (rule sorted_filter_id)
  also have "\<dots> = [y \<leftarrow> cs. fst y \<le> x]"
  proof (rule filter_cong)
    show "cs = cs" by simp
    show "(fst y \<noteq> st \<and> fst y \<le> x) = (fst y \<le> x)" for y using x by linarith
  qed
  finally have "color_at (span_tail cs (color_at cs (st + w)) c st w) x = color_at cs x"
    by (rule color_at_cong)
  then show ?thesis by (simp only: r)
next
  case True
  have r: "add_color_span cs c st w = span_tail ((0, 1) # cs) 1 c st w"
    using True by (simp add: add_color_span_eq)
  have none: "[y \<leftarrow> cs. fst y \<le> x] = []"
  proof (rule ccontr)
    assume "[y \<leftarrow> cs. fst y \<le> x] \<noteq> []"
    then obtain g where "g \<in> set cs" "fst g \<le> x"
      by (metis filter_empty_conv)
    then have "g \<in> set [y \<leftarrow> cs. fst y \<le> st + w]" using w x by simp
    then show False using True by simp
  qed
  have "[y \<leftarrow> span_tail ((0, 1) # cs) 1 c st w. fst y \<le> x]
          = sort_key fst [y \<leftarrow> (0, 1) # cs. fst y \<noteq> st \<and> fst y \<le> x]"
    using w x by (simp add: filter_span_tail)
  also have "[y \<leftarrow> (0, 1) # cs. fst y \<noteq> st \<and> fst y \<le> x] = [y \<leftarrow> (0, 1) # cs. fst y \<le> x]"
  proof (rule filter_cong)
    show "(0, 1) # cs = (0, 1) # cs" by simp
    show "(fst y \<noteq> st \<and> fst y \<le> x) = (fst y \<le> x)" for y using x by linarith
  qed
  also have "\<dots> = (if 0 \<le> x then [(0, 1)] else [])" using none by simp
  finally have "color_at (span_tail ((0, 1) # cs) 1 c st w) x = 1"
    by (simp add: color_at_def)
  then show ?thesis using color_at_none [OF none] by (simp only: r)
qed

lemma last_sort_two:
  assumes "sorted (map fst G)"
  shows "last (sort_key fst (G @ [(st, c), (st, p)]))
           = (if \<forall>g\<in>set G. fst g \<le> st then (st, p) else last G)"
proof -
  have "last (sort_key fst ((G @ [(st, c)]) @ [(st, p)]))
          = (if \<forall>g\<in>set (G @ [(st, c)]). fst g \<le> fst (st, p) then (st, p)
             else last (sort_key fst (G @ [(st, c)])))"
    by (rule last_sort_key_snoc_if)
  moreover have "last (sort_key fst (G @ [(st, c)]))
          = (if \<forall>g\<in>set G. fst g \<le> fst (st, c) then (st, c) else last (sort_key fst G))"
    by (rule last_sort_key_snoc_if)
  moreover have "sort_key fst G = G" using assms by (simp add: sort_key_id_if_sorted)
  ultimately show ?thesis by auto
qed

lemma color_at_empty_span_low:
  assumes srt: "sorted (map fst cs')" and x: "st \<le> x"
    and low: "\<forall>g\<in>set cs'. fst g \<le> x \<longrightarrow> fst g \<le> st"
  shows "color_at (span_tail cs' p c st 0) x = p"
proof -
  let ?G = "[y \<leftarrow> cs'. fst y \<noteq> st \<and> fst y \<le> x]"
  have sG: "sorted (map fst ?G)" using srt by (simp add: sorted_filter)
  have f: "[y \<leftarrow> span_tail cs' p c st 0. fst y \<le> x] = sort_key fst (?G @ [(st, c), (st, p)])"
    using x by (simp add: filter_span_tail)
  have ne: "sort_key fst (?G @ [(st, c), (st, p)]) \<noteq> []"
    by (simp add: sort_key_Nil_iff)
  have "\<forall>g\<in>set ?G. fst g \<le> st" using low by simp
  then have "last (sort_key fst (?G @ [(st, c), (st, p)])) = (st, p)"
    using last_sort_two [OF sG, of st c p] by (simp only: if_P)
  then show ?thesis using color_at_last [OF f ne] by (simp only: snd_conv)
qed

lemma color_at_empty_span_high:
  assumes srt: "sorted (map fst cs')" and x: "st \<le> x"
    and g: "g \<in> set cs'" "fst g \<le> x" "st < fst g"
  shows "color_at (span_tail cs' p c st 0) x = snd (last [y \<leftarrow> cs'. fst y \<le> x])"
proof -
  let ?G = "[y \<leftarrow> cs'. fst y \<noteq> st \<and> fst y \<le> x]"
  let ?H = "[y \<leftarrow> cs'. fst y \<le> x]"
  have sG: "sorted (map fst ?G)" and sH: "sorted (map fst ?H)" using srt by (simp_all add: sorted_filter)
  have f: "[y \<leftarrow> span_tail cs' p c st 0. fst y \<le> x] = sort_key fst (?G @ [(st, c), (st, p)])"
    using x by (simp add: filter_span_tail)
  have ne: "sort_key fst (?G @ [(st, c), (st, p)]) \<noteq> []"
    by (simp add: sort_key_Nil_iff)
  have gH: "g \<in> set ?H" using g by simp
  have Hne: "?H \<noteq> []" using gH by (metis empty_iff empty_set)
  have "fst g \<le> fst (last ?H)" using sorted_last_max [OF sH gH] .
  then have lastne: "fst (last ?H) \<noteq> st" using g(3) by simp
  have "?G = filter (\<lambda>y. fst y \<noteq> st) ?H" by (simp add: conj_commute)
  then have GH: "last ?G = last ?H" using last_filter_keep [OF Hne, of "\<lambda>y. fst y \<noteq> st"] lastne by simp
  have "g \<in> set ?G" using g by simp
  then have "\<not> (\<forall>g\<in>set ?G. fst g \<le> st)" using g(3) by (metis not_le)
  then have "last (sort_key fst (?G @ [(st, c), (st, p)])) = last ?G"
    using last_sort_two [OF sG, of st c p] by (simp only: if_not_P if_False)
  then show ?thesis using color_at_last [OF f ne] GH by (simp only:)
qed

lemma color_at_empty_span:
  assumes srt: "sorted (map fst cs)" and st: "0 \<le> st"
  shows "color_at (add_color_span cs c st 0) x = color_at cs x"
proof (cases "x < st")
  case True
  then show ?thesis using color_at_before_span [OF srt, of 0 x st c] by simp
next
  case False
  then have x: "st \<le> x" by simp
  show ?thesis
  proof (cases "[y \<leftarrow> cs. fst y \<le> st] = []")
    case ne: False
    have r: "add_color_span cs c st 0 = span_tail cs (color_at cs st) c st 0"
      using ne by (simp add: add_color_span_eq)
    show ?thesis
    proof (cases "\<forall>g\<in>set cs. fst g \<le> x \<longrightarrow> fst g \<le> st")
      case True
      then have "[y \<leftarrow> cs. fst y \<le> x] = [y \<leftarrow> cs. fst y \<le> st]"
        using x by (intro filter_cong) auto
      then have "color_at cs x = color_at cs st" by (rule color_at_cong)
      then show ?thesis using r color_at_empty_span_low [OF srt x True] by (simp only:)
    next
      case False
      then obtain g where g: "g \<in> set cs" "fst g \<le> x" "st < fst g" by (meson not_le)
      have gH: "g \<in> set [y \<leftarrow> cs. fst y \<le> x]" using g by simp
      have "[y \<leftarrow> cs. fst y \<le> x] \<noteq> []" using gH by (metis empty_iff empty_set)
      then have "color_at cs x = snd (last [y \<leftarrow> cs. fst y \<le> x])"
        using color_at_last by blast
      then show ?thesis using r color_at_empty_span_high [OF srt x g] by (simp only:)
    qed
  next
    case emp: True
    have above: "st < fst g" if "g \<in> set cs" for g
    proof (rule ccontr)
      assume "\<not> st < fst g"
      then have "g \<in> set [y \<leftarrow> cs. fst y \<le> st]" using that by simp
      then show False using emp by simp
    qed
    have r: "add_color_span cs c st 0 = span_tail ((0, 1) # cs) 1 c st 0"
      using emp by (simp add: add_color_span_eq)
    have "\<forall>g\<in>set cs. 0 \<le> fst g" using above st by fastforce
    then have srt': "sorted (map fst ((0, 1) # cs))" using srt by simp
    show ?thesis
    proof (cases "\<exists>g\<in>set cs. fst g \<le> x")
      case False
      then have "[y \<leftarrow> cs. fst y \<le> x] = []" by (simp add: filter_empty_conv)
      then have 1: "color_at cs x = 1" by (rule color_at_none)
      have low: "\<forall>g\<in>set ((0, 1) # cs). fst g \<le> x \<longrightarrow> fst g \<le> st" using False st by simp
      show ?thesis using r 1 color_at_empty_span_low [OF srt' x low] by (simp only:)
    next
      case True
      then obtain g where g: "g \<in> set cs" "fst g \<le> x" by blast
      have g3: "st < fst g" using above g(1) .
      have gH: "g \<in> set [y \<leftarrow> cs. fst y \<le> x]" using g by simp
      have Hne: "[y \<leftarrow> cs. fst y \<le> x] \<noteq> []" using gH by (metis empty_iff empty_set)
      then have 1: "color_at cs x = snd (last [y \<leftarrow> cs. fst y \<le> x])"
        using color_at_last by blast
      have "[y \<leftarrow> (0, 1) # cs. fst y \<le> x] = (0, 1) # [y \<leftarrow> cs. fst y \<le> x]"
        using st x by simp
      then have 2: "last [y \<leftarrow> (0, 1) # cs. fst y \<le> x] = last [y \<leftarrow> cs. fst y \<le> x]"
        using Hne by simp
      have g': "g \<in> set ((0, 1) # cs)" using g(1) by simp
      show ?thesis
        using r 1 2 color_at_empty_span_high [OF srt' x g' g(2) g3] by (simp only:)
    qed
  qed
qed

text \<open>
  Claim C9, amended. \<^verbatim>\<open>add_color_span\<close> never raises, whatever the breakpoint list and
  the three integers are: the only exception inside it, the \<^verbatim>\<open>IndexError\<close> of the empty
  selection, is caught. On a list sorted by offset, a span of length 0 at a start that is
  not negative leaves the colour in effect at every column as it was, and a span of length
  at least 0 leaves the colour of every column before its start as it was, so a span that
  starts at or beyond the end of the line changes no column of the line.
\<close>

theorem add_color_span_degenerate:
  "add_color_span_exc cs c st w = Inr (add_color_span cs c st w)
   \<and> (sorted (map fst cs) \<longrightarrow> 0 \<le> st \<longrightarrow> color_at (add_color_span cs c st 0) x = color_at cs x)
   \<and> (sorted (map fst cs) \<longrightarrow> 0 \<le> w \<longrightarrow> x < st \<longrightarrow>
        color_at (add_color_span cs c st w) x = color_at cs x)"
  by (simp add: add_color_span_exc_total color_at_empty_span color_at_before_span)

theorem add_color_span_degenerate_witness:
  "sorted (map fst [(0 :: int, 1 :: int), (4, 7)]) \<and> (0 :: int) \<le> 9 \<and> (0 :: int) \<le> 3 \<and> (5 :: int) < 9 \<and>
   add_color_span_exc [(0, 1), (4, 7)] 2 9 3 = Inr (add_color_span [(0, 1), (4, 7)] 2 9 3) \<and>
   color_at (add_color_span [(0, 1), (4, 7)] 2 9 0) 5 = 7 \<and>
   color_at (add_color_span [(0, 1), (4, 7)] 2 9 3) 5 = 7"
proof -
  have a: "sorted (map fst [(0 :: int, 1 :: int), (4, 7)])" by simp
  have "color_at [(0, 1), (4, 7)] 5 = 7" by (simp add: color_at_def)
  then show ?thesis
    using a add_color_span_degenerate [of "[(0, 1), (4, 7)]" 2 9 3 5] by simp
qed

text \<open>
  A span of negative length is neither without effect nor clamped: on \<open>[(0, 1)]\<close>, style 2
  from 5 with length -2 puts breakpoints at 3 and at 5, and style 2 is in effect from column
  5 on, where style 1 was.
\<close>

theorem add_color_span_negative_counterexample:
  "add_color_span_exc [(0, 1)] 2 5 (- 2) = Inr [(0, 1), (3, 1), (5, 2)] \<and>
   color_at [(0, 1)] 7 = 1 \<and> color_at (add_color_span [(0, 1)] 2 5 (- 2)) 7 = 2"
  by (simp add: add_color_span_exc_def add_color_span_def span_tail_def color_at_def py_last_def)

subsection \<open>Collapsing and expanding\<close>

lemma bump_bump: "bump x (bump y l) = bump (x + y) l"
  by (cases "json l") (simp_all add: bump_def)

lemma bump_zero: "bump 0 l = l"
  by (cases "json l") (simp_all add: bump_def)

lemma py_index_less: "py_index len i = Some k \<Longrightarrow> k < len"
  by (auto simp: py_index_def split: if_splits)

lemma adjust_step:
  "k < length ls \<Longrightarrow>
     (case json (ls ! k) of
        None \<Rightarrow> ls
      | Some a \<Rightarrow> ls[k := (ls ! k)\<lparr>json := Some (a\<lparr>hidden := hidden a + delta\<rparr>)\<rparr>])
     = ls[k := bump delta (ls ! k)]"
  by (cases "json (ls ! k)") (simp_all add: bump_def)



lemma adjust_hidden_nth:
  "adjust_hidden ls delta xs = Inr ls' \<Longrightarrow>
     length ls' = length ls \<and> (\<forall>k<length ls. ls' ! k = bump (delta * hits (length ls) xs k) (ls ! k))"
proof (induction xs arbitrary: ls)
  case Nil
  then show ?case by (simp add: hits_def bump_zero)
next
  case (Cons x xs)
  from Cons.prems obtain j where j: "py_index (length ls) x = Some j"
    by (cases "py_index (length ls) x") simp_all
  have jl: "j < length ls" using py_index_less [OF j] .
  let ?ls1 = "ls[j := bump delta (ls ! j)]"
  have rec: "adjust_hidden ?ls1 delta xs = Inr ls'"
    using Cons.prems j adjust_step [OF jl, of delta] by simp
  have ih: "length ls' = length ?ls1"
    "\<And>k. k < length ?ls1 \<Longrightarrow> ls' ! k = bump (delta * hits (length ?ls1) xs k) (?ls1 ! k)"
    using Cons.IH [OF rec] by simp_all
  have "ls' ! k = bump (delta * hits (length ls) (x # xs) k) (ls ! k)" if k: "k < length ls" for k
  proof (cases "k = j")
    case True
    have "hits (length ls) (x # xs) k = hits (length ls) xs k + 1"
      using True j by (simp add: hits_def)
    then show ?thesis using ih(2) [of k] k True
      by (simp add: bump_bump algebra_simps)
  next
    case False
    have "hits (length ls) (x # xs) k = hits (length ls) xs k"
      using False j by (simp add: hits_def)
    then show ?thesis using ih(2) [of k] k False by simp
  qed
  then show ?case using ih(1) by simp
qed

lemma adjust_hidden_same_outcome:
  "adjust_hidden ls delta xs = Inr ls' \<Longrightarrow> length ls2 = length ls \<Longrightarrow>
     \<exists>ls2'. adjust_hidden ls2 delta2 xs = Inr ls2'"
proof (induction xs arbitrary: ls ls2)
  case Nil
  then show ?case by simp
next
  case (Cons x xs)
  from Cons.prems obtain j where j: "py_index (length ls) x = Some j"
    by (cases "py_index (length ls) x") simp_all
  have jl: "j < length ls" using py_index_less [OF j] .
  have rec: "adjust_hidden (ls[j := bump delta (ls ! j)]) delta xs = Inr ls'"
    using Cons.prems j adjust_step [OF jl, of delta] by simp
  have "\<exists>ls2'. adjust_hidden (ls2[j := bump delta2 (ls2 ! j)]) delta2 xs = Inr ls2'"
    using Cons.IH [OF rec, of "ls2[j := bump delta2 (ls2 ! j)]"] Cons.prems(2) by simp
  then show ?case
    using j jl Cons.prems(2) adjust_step [of j ls2 delta2] by simp
qed

lemma set_collapsed_unfold:
  assumes "py_index (length (content d)) n = Some k" and "json (content d ! k) = Some a"
    and "collapsible a" and "entity a = Some e" and "collapsed e \<noteq> c"
    and "row (content d ! k) = Some r" and "pair_idx e = Some p"
  shows "set_collapsed d n c =
           (case adjust_hidden
                   ((content d)[k := (content d ! k)\<lparr>json := Some (a\<lparr>entity :=
                                          Some (e\<lparr>collapsed := c\<rparr>)\<rparr>)\<rparr>])
                   (if c then - 1 else 1) (py_range (r + 1) (p + 1)) of
              Inl x \<Rightarrow> Inl x
            | Inr ls \<Rightarrow> draw (d\<lparr>content := ls\<rparr>))"
  using assms by (simp add: set_collapsed_def Let_def)

lemma set_collapsed_row_pair:
  assumes "py_index (length (content d)) n = Some k" and "json (content d ! k) = Some a"
    and "collapsible a" and "entity a = Some e" and "collapsed e \<noteq> c"
    and "set_collapsed d n c = Inr d1"
  shows "\<exists>r p. row (content d ! k) = Some r \<and> pair_idx e = Some p"
  using assms
  by (cases "row (content d ! k)"; cases "pair_idx e") (simp_all add: set_collapsed_def Let_def)

text \<open>
  Claim C5, amended. On a started display, for every collapsible line that is expanded, a
  call \<^verbatim>\<open>set_collapsed(row, True)\<close> that returns, followed by
  \<^verbatim>\<open>set_collapsed(row, False)\<close>, is the same as drawing the display it started from: the
  second call returns whenever that display can be drawn, and then every line of the
  buffer, its hidden counter and its collapsed flag included, is what it was before the
  two calls.
\<close>

theorem collapse_expand_round_trip:
  assumes st: "started d"
    and k: "py_index (length (content d)) n = Some k"
    and a: "json (content d ! k) = Some a"
    and ca: "collapsible a"
    and e: "entity a = Some e"
    and ex: "\<not> collapsed e"
    and first: "set_collapsed d n True = Inr d1"
  shows "set_collapsed d1 n False = draw d
         \<and> (\<forall>d2. set_collapsed d1 n False = Inr d2 \<longrightarrow> content d2 = content d)"
proof -
  let ?C0 = "content d"
  let ?len = "length ?C0"
  have kl: "k < ?len" using py_index_less [OF k] .
  from ex have ne: "collapsed e \<noteq> True" by simp
  obtain r p where r: "row (?C0 ! k) = Some r" and p: "pair_idx e = Some p"
    using set_collapsed_row_pair [OF k a ca e ne first] by blast
  let ?R = "py_range (r + 1) (p + 1)"
  let ?lc = "(?C0 ! k)\<lparr>json := Some (a\<lparr>entity := Some (e\<lparr>collapsed := True\<rparr>)\<rparr>)\<rparr>"
  let ?L1 = "?C0[k := ?lc]"
  have u1: "set_collapsed d n True =
              (case adjust_hidden ?L1 (- 1) ?R of Inl x \<Rightarrow> Inl x | Inr ls \<Rightarrow> draw (d\<lparr>content := ls\<rparr>))"
    using set_collapsed_unfold [OF k a ca e ne r p] by simp
  from first u1 obtain C1 where C1: "adjust_hidden ?L1 (- 1) ?R = Inr C1"
    and dr1: "draw (d\<lparr>content := C1\<rparr>) = Inr d1"
    by (cases "adjust_hidden ?L1 (- 1) ?R") simp_all
  have len1: "length C1 = ?len"
    and nth1: "\<And>j. j < ?len \<Longrightarrow> C1 ! j = bump (- 1 * hits ?len ?R j) (?L1 ! j)"
    using adjust_hidden_nth [OF C1] by simp_all
  have d1c: "content d1 = C1" using draw_content [OF _ dr1] st by simp
  have d1eq: "d1 = d\<lparr>content := C1, bottom_row := bottom_row d1\<rparr>"
    using draw_started [OF _ dr1] st by simp
  \<comment> \<open>the second call\<close>
  define h where "h = hits ?len ?R k"
  define a1 where "a1 = a\<lparr>entity := Some (e\<lparr>collapsed := True\<rparr>), hidden := hidden a - h\<rparr>"
  have line1: "C1 ! k = (?C0 ! k)\<lparr>json := Some a1\<rparr>"
    using nth1 [OF kl] kl by (simp add: bump_def a1_def h_def)
  have k1: "py_index (length (content d1)) n = Some k" using k d1c len1 by simp
  have j1: "json (content d1 ! k) = Some a1" using line1 d1c by simp
  have c1: "collapsible a1" using ca by (simp add: a1_def collapsible_def)
  have e1: "entity a1 = Some (e\<lparr>collapsed := True\<rparr>)" by (simp add: a1_def)
  have n1: "collapsed (e\<lparr>collapsed := True\<rparr>) \<noteq> False" by simp
  have r1: "row (content d1 ! k) = Some r" using line1 d1c r by simp
  have p1: "pair_idx (e\<lparr>collapsed := True\<rparr>) = Some p" using p by simp
  let ?le = "(C1 ! k)\<lparr>json := Some (a1\<lparr>entity := Some (e\<lparr>collapsed := False\<rparr>)\<rparr>)\<rparr>"
  let ?L2 = "C1[k := ?le]"
  have u2: "set_collapsed d1 n False =
              (case adjust_hidden ?L2 1 ?R of Inl x \<Rightarrow> Inl x | Inr ls \<Rightarrow> draw (d1\<lparr>content := ls\<rparr>))"
    using set_collapsed_unfold [OF k1 j1 c1 e1 n1 r1 p1] d1c by simp
  have "length ?L2 = length ?L1" using len1 by simp
  then obtain C2 where C2: "adjust_hidden ?L2 1 ?R = Inr C2"
    using adjust_hidden_same_outcome [OF C1, of ?L2 1] by blast
  have len2: "length C2 = ?len"
    and nth2: "\<And>j. j < ?len \<Longrightarrow> C2 ! j = bump (1 * hits ?len ?R j) (?L2 ! j)"
    using adjust_hidden_nth [OF C2] len1 by simp_all
  have e_id: "e\<lparr>collapsed := False\<rparr> = e" using ex by simp
  have a_id: "b\<lparr>entity := Some e\<rparr> = b" if "entity b = Some e" for b :: JsonAnnotation
    using that by (cases b) simp
  have "C2 ! j = ?C0 ! j" if j: "j < ?len" for j
  proof (cases "j = k")
    case True
    have "?L2 ! k = (?C0 ! k)\<lparr>json := Some (a\<lparr>hidden := hidden a - h\<rparr>)\<rparr>"
      using kl len1 line1 a_id [of "a\<lparr>hidden := hidden a - h\<rparr>"] e by (simp add: a1_def e_id)
    then have "C2 ! k = (?C0 ! k)\<lparr>json := Some a\<rparr>"
      using nth2 [OF kl] by (simp add: bump_def h_def)
    then show ?thesis using True a by simp
  next
    case False
    have "?L2 ! j = bump (- 1 * hits ?len ?R j) (?C0 ! j)"
      using False j nth1 [OF j] by simp
    then show ?thesis using nth2 [OF j] by (simp add: bump_bump bump_zero)
  qed
  then have "C2 = ?C0" using len2 by (simp add: nth_equalityI)
  then have "set_collapsed d1 n False = draw (d1\<lparr>content := ?C0\<rparr>)"
    using u2 C2 by simp
  also have "d1\<lparr>content := ?C0\<rparr> = d\<lparr>bottom_row := bottom_row d1\<rparr>"
    by (subst d1eq) simp
  finally have main: "set_collapsed d1 n False = draw d"
    by (simp add: draw_ignores_bottom_row)
  have "content d2 = content d" if "set_collapsed d1 n False = Inr d2" for d2
    using that main draw_content [OF st] by simp
  then show ?thesis using main by blast
qed

theorem collapse_expand_round_trip_witness:
  "started scenario_display \<and>
   py_index (length (content scenario_display)) 2 = Some 2 \<and>
   map_option type (json (content scenario_display ! 2)) = Some ARR_START \<and>
   set_collapsed scenario_display 2 True = Inr scenario_collapsed \<and>
   set_collapsed scenario_collapsed 2 False = draw scenario_display \<and>
   map_sum id hidden_view (draw scenario_display) = Inr (replicate 8 (Some 0))"
proof -
  let ?a = "the (json (content scenario_display ! 2))"
  have st: "started scenario_display" by code_simp
  have k: "py_index (length (content scenario_display)) 2 = Some 2" by code_simp
  have a: "json (content scenario_display ! 2) = Some ?a" by code_simp
  have ca: "collapsible ?a" by code_simp
  have e: "entity ?a = Some (the (entity ?a))" by code_simp
  have ex: "\<not> collapsed (the (entity ?a))" by code_simp
  have first: "set_collapsed scenario_display 2 True = Inr scenario_collapsed" by code_simp
  have t: "map_option type (json (content scenario_display ! 2)) = Some ARR_START" by code_simp
  have h: "map_sum id hidden_view (draw scenario_display) = Inr (replicate 8 (Some 0))" by code_simp
  have "set_collapsed scenario_collapsed 2 False = draw scenario_display"
    using collapse_expand_round_trip [OF st k a ca e ex first] by (rule conjunct1)
  then show ?thesis using st k t first h by simp
qed


text \<open>
  On a display that was stopped, the \<^verbatim>\<open>draw\<close> at the end of the first call starts the
  display, which empties the buffer; the second call then finds no line at the row.
\<close>

theorem collapse_on_stopped_display_counterexample:
  "\<not> started (stop scenario_display) \<and>
   hidden_view (stop scenario_display) = replicate 8 (Some 0) \<and>
   map_sum id content (set_collapsed (stop scenario_display) 2 True) = Inr [] \<and>
   and_then (set_collapsed (stop scenario_display) 2 True) (\<lambda>d. set_collapsed d 2 False)
     = Inl IndexError"
  by code_simp

subsection \<open>Places where the code departs from the claims\<close>

text \<open>
  Claim C1, at a failing input. The buffer holds the line \<^verbatim>\<open>x\<close> and \<^verbatim>\<open>print_json([1])\<close> is
  called: the array start is at row 1 and knows its end, row 3, but the end at row 3 has
  \<^verbatim>\<open>pair_idx\<close> 0 and not 1, since the code stores the row within the call
  (\<^verbatim>\<open>entity_start\<close>) without adding the number of lines that were there. With the
  previous line not flushed (\<^verbatim>\<open>print('headers = ')\<close>, then \<^verbatim>\<open>print_json({"a": 1},
  False)\<close>, as \<^verbatim>\<open>api_request.py\<close> does) the start at row 0 has \<^verbatim>\<open>pair_idx\<close> 3 and its
  end is at row 2: the count of the lines that were there includes the line that is merged.
\<close>

theorem print_json_pair_idx_not_mutual:
  "map_sum id rows_view
     (and_then (print terminal ''x'' True) (\<lambda>d. print_json d (JList [JInt 1]) True))
   = Inr [(''x'', Some 0, None, None),
          (''['', Some 1, Some ARR_START, Some 3),
          (''    1'', Some 2, Some NUMBER, None),
          ('']'', Some 3, Some ARR_END, Some 0)]
   \<and> map_sum id rows_view
     (and_then (print terminal ''headers = '' True)
        (\<lambda>d. print_json d (JDict [(''a'', JInt 1)]) False))
   = Inr [(''headers = {'', Some 0, Some OBJ_START, Some 3),
          (''    '' @ [CHR 0x22] @ ''a'' @ [CHR 0x22] @ '': 1'', Some 1, Some NUMBER, None),
          (''}'', Some 2, Some OBJ_END, Some 0)]"
  by code_simp

text \<open>
  A dict key that holds a quote followed by a colon makes the key-value pattern stop inside
  the key: in \<^verbatim>\<open>{"k\": ": [1, 2]}\<close> the array start is not recognised, the closing bracket
  pops the object, and the closing brace finds the stack empty.
\<close>

lemma print_json_quote_colon_key:
  "print_json terminal (JDict [(''k'' @ [CHR 0x22] @ '': '', JList [JInt 1, JInt 2])]) True
     = Inl IndexError"
  by code_simp

text \<open>
  Claim C2, at a failing input. In the example of the specification every line has
  \<^verbatim>\<open>hidden\<close> 0; collapsing the array at row 2 leaves the rows 3 to 6 with \<^verbatim>\<open>hidden\<close> -1:
  the code adds \<^verbatim>\<open>-1 if collapsed else 1\<close>, so collapsing lowers the counter and expanding
  raises it.
\<close>

theorem set_collapsed_lowers_hidden:
  "hidden_view scenario_display = replicate 8 (Some 0) \<and>
   set_collapsed scenario_display 2 True = Inr scenario_collapsed \<and>
   hidden_view scenario_collapsed
     = [Some 0, Some 0, Some 0, Some (- 1), Some (- 1), Some (- 1), Some (- 1), Some 0]"
  by code_simp

text \<open>
  Claim C3, at three failing inputs. After \<^verbatim>\<open>print_json([[1]])\<close>, \<^verbatim>\<open>scroll_screen_down()\<close>
  and \<^verbatim>\<open>set_collapsed(0, True)\<close>, the toggle \<^verbatim>\<open>cycle_mode()\<close> enters the structural mode
  with the cursor on row 1, a line hidden by the collapsed row 0. On a terminal of 2 rows
  the keys space, down, left, space, space on \<^verbatim>\<open>{"a": {"b": 1}}\<close> do the same: the cursor
  ends on row 2, which the collapsed row 1 hides. In both the counter of the line is -1.
  In the third input an object is collapsed, a second one is printed without flushing onto
  its closing line, and the first is expanded: the merged line at row 5 is left with the
  counter 1, and the toggle, from the top row 2, puts the cursor on it. The search of
  \<^verbatim>\<open>cycle_mode\<close> has no test of \<^verbatim>\<open>hidden\<close>, which the searches of
  \<^verbatim>\<open>scroll_json_up\<close> and \<^verbatim>\<open>scroll_json_down\<close> have.
\<close>

theorem cycle_mode_selects_hidden_line:
  "map_sum id (\<lambda>d. (mode d, top_row d, cursor_row d, hidden_view d))
     (and_then (print_json terminal (JList [JList [JInt 1]]) True)
        (\<lambda>d. and_then (scroll_screen_down d 1)
           (\<lambda>d. and_then (set_collapsed d 0 True) cycle_mode)))
   = Inr (JSON, 1, Some 1, [Some 0, Some (- 1), Some (- 1), Some (- 1), Some (- 1)])
   \<and> map_option (map_sum id (\<lambda>d. (mode d, top_row d, cursor_row d, hidden_view d)))
     (case print_json (start (LinesDisplay_init 2 80)) (JDict [(''a'', JDict [(''b'', JInt 1)])]) True of
        Inl e \<Rightarrow> Some (Inl e)
      | Inr d \<Rightarrow> browse_keys (browse_begin d) [KEY_SPACE, KEY_DOWN, KEY_LEFT, KEY_SPACE, KEY_SPACE])
   = Some (Inr (JSON, 2, Some 2, [Some 0, Some 0, Some (- 1), Some (- 1), Some 0]))
   \<and> map_sum id (\<lambda>d. (mode d, top_row d, cursor_row d, hidden_view d))
     (and_then (print_json terminal (JDict [(''k'', JList [JInt 1, JInt 2])]) True)
        (\<lambda>d. and_then (set_collapsed d 0 True)
        (\<lambda>d. and_then (print_json d (JDict [(''a'', JInt 1)]) False)
        (\<lambda>d. and_then (set_collapsed d 0 False)
        (\<lambda>d. and_then (scroll_screen_down d 2) cycle_mode)))))
   = Inr (JSON, 2, Some 5, [Some 0, Some 0, Some 0, Some 0, Some 0, Some 1, Some 0, Some 0])"
  by code_simp

text \<open>
  Claim C6, at a failing input. The last line of the buffer is two spaces and
  \<^verbatim>\<open>print_json([1, 2], False)\<close> merges it with the opening bracket: the indentation of the
  start is then read from the merged text, 2, the elements are at 4 and not at 6, and the
  \<^verbatim>\<open>child_count\<close> of the array of two elements is 0. In the example of the specification,
  printed on a line of its own, the count is 3.
\<close>

theorem child_count_after_merge:
  "map_sum id (\<lambda>d. map (\<lambda>l. (s l, count_of l)) (content d))
     (and_then (print terminal ''  '' True)
        (\<lambda>d. print_json d (JList [JInt 1, JInt 2]) False))
   = Inr [(''  ['', Some 0), (''    1,'', None), (''    2'', None), ('']'', Some 0)]
   \<and> count_of (content scenario_display ! 2) = Some 3"
  by code_simp

end
